theory Spec2Isabelle
  imports Main "HOL-Library.AList" "HOL-Library.Multiset"
begin

section \<open>Python values used by the script\<close>

text \<open>
  Strings are \<^typ>\<open>string\<close>: a Python \<open>str\<close> is kept as the bytes of its UTF-8
  encoding, which is also what a file holds (the files are read as UTF-8 and written
  in a UTF-8 locale). Every character the program and the \<open>csv\<close> module treat
  specially (quote, comma, CR, LF) is an ASCII character, one byte that occurs in no
  longer UTF-8 sequence. A value stored in a row dictionary is a \<open>str\<close> or
  \<open>None\<close> (\<open>csv.DictReader\<close> fills the missing cells of a short line with
  \<open>None\<close>), so a cell is a \<^typ>\<open>string option\<close>. A row dictionary is kept as an
  association list in insertion order, as a Python \<open>dict\<close> is: assigning to a key
  that exists keeps its place, assigning to a new key appends
  (\<^const>\<open>AList.update\<close>), \<open>del\<close> removes the pair (\<^const>\<open>AList.delete\<close>).
  The only other entry a \<open>DictReader\<close> row can hold is the one under the key
  \<open>None\<close> (the \<open>restkey\<close>), a list of the surplus cells of a long line: field
  \<open>extra\<close>.
\<close>

datatype py_error =
  KeyError | ValueError | EOFError | FileNotFoundError | CsvError | TypeError | AttributeError

type_synonym cell = "string option"

record row =
  cells :: "(string \<times> cell) list"
  extra :: "string list option"

text \<open>The mapping table: a \<open>dict\<close> from the value of the account key to a row.\<close>

type_synonym mapping = "(cell \<times> row) list"

text \<open>\<open>d[k]\<close>: a missing key raises \<open>KeyError\<close>.\<close>

definition getitem :: "('k \<times> 'v) list \<Rightarrow> 'k \<Rightarrow> py_error + 'v" where
  "getitem d k = (case map_of d k of None \<Rightarrow> Inl KeyError | Some v \<Rightarrow> Inr v)"

text \<open>\<open>row[k] = v\<close> for a string key.\<close>

definition setitem :: "row \<Rightarrow> string \<Rightarrow> cell \<Rightarrow> row" where
  "setitem r k v = r\<lparr>cells := AList.update k v (cells r)\<rparr>"

text \<open>\<open>str(v)\<close>, as an f-string formats a cell.\<close>

definition py_str :: "cell \<Rightarrow> string" where
  "py_str v = (case v of None \<Rightarrow> ''None'' | Some s \<Rightarrow> s)"

section \<open>Constants of the script\<close>

definition SOURCE_HEADERS :: "string set" where
  "SOURCE_HEADERS = {''No'', ''Customer ID'', ''Company Name'', ''Flat Charge'',
     ''Current Volume'', ''Current Amount'', ''YTD Volume'', ''YTD Amount''}"

definition MAPPING_HEADERS :: "string set" where
  "MAPPING_HEADERS = {''Customer ID'', ''Company Name'', ''Account Number''}"

definition ACCOUNT_KEY :: string where
  "ACCOUNT_KEY = ''Customer ID''"

definition FIELD_NAME_CHANGE :: "(string \<times> string) list" where
  "FIELD_NAME_CHANGE = [(''SOURCE_FIELD_NAME'', ''DESTINATION_FIELD_NAME'')]"

definition BILLING_HEADERS :: "string set" where
  "BILLING_HEADERS = {''No'', ''Customer ID'', ''Company Name'', ''Account Number'',
     ''Flat Charge'', ''Current Volume'', ''Current Amount'', ''YTD Volume'', ''YTD Amount''}"

definition DEFAULT_SOURCE_CSV_FILENAME :: string where
  "DEFAULT_SOURCE_CSV_FILENAME = ''accounting.csv''"

definition DEFAULT_MAPPING_CSV_FILENAME :: string where
  "DEFAULT_MAPPING_CSV_FILENAME = ''account_mapping.csv''"

definition DEFAULT_DEST_CSV_FILENAME_PREFIX :: string where
  "DEFAULT_DEST_CSV_FILENAME_PREFIX = ''billing_''"

definition DEFAULT_DEST_CSV_FILENAME :: string where
  "DEFAULT_DEST_CSV_FILENAME = DEFAULT_DEST_CSV_FILENAME_PREFIX @ ''YYYYMMDD_HHMM.csv''"

text \<open>
  The three header constants are Python \<open>set\<close>s. Iterating a set of strings yields
  every element once, in an order the program does not fix (it follows the string
  hashes, which CPython salts per process). The order in which a run iterates a header
  set is therefore a parameter of the model: a list that enumerates the set.
\<close>

definition iteration_of :: "string set \<Rightarrow> string list \<Rightarrow> bool" where
  "iteration_of S xs = (distinct xs \<and> set xs = S)"

section \<open>The world: operator, console and files\<close>

text \<open>
  \<open>answers\<close> are the lines the operator will type, \<open>prompts\<close> the prompt texts
  printed so far, \<open>files\<close> the text of every file that exists, \<open>now\<close> the local
  time \<open>datetime.datetime.now()\<close> reads. Every effectful
  function takes the world and returns its result (\<open>Inl\<close> the exception raised)
  together with the world it leaves behind, also when it raises.
\<close>

record timestamp =
  year :: nat
  month :: nat
  day :: nat
  hour :: nat
  minute :: nat

record world =
  answers :: "string list"
  prompts :: "string list"
  files :: "string \<rightharpoonup> string"
  now :: timestamp

section \<open>\<open>write_csv\<close>: \<open>csv.DictWriter\<close> with \<open>QUOTE_ALL\<close>\<close>

text \<open>
  The writer of the \<open>csv\<close> module with \<open>quoting=QUOTE_ALL\<close>, \<open>delimiter=','\<close>,
  \<open>lineterminator='\r\n'\<close> and the default \<open>quotechar='"'\<close>, \<open>doublequote=True\<close>:
  every cell is written between double quotes, a double quote inside it is doubled,
  cells are joined by commas and the line ends with CR LF. \<open>None\<close> is written as the
  empty string.
\<close>

definition DQUOTE :: char where "DQUOTE = CHR 0x22"
definition COMMA :: char where "COMMA = CHR 0x2C"
definition CR :: char where "CR = CHR 0x0D"
definition LF :: char where "LF = CHR 0x0A"

fun escape_quotes :: "string \<Rightarrow> string" where
  "escape_quotes [] = []"
| "escape_quotes (c # cs) = (if c = DQUOTE then [DQUOTE, DQUOTE] else [c]) @ escape_quotes cs"

definition quote_cell :: "string \<Rightarrow> string" where
  "quote_cell s = DQUOTE # escape_quotes s @ [DQUOTE]"

fun join_cells :: "string list \<Rightarrow> string" where
  "join_cells [] = []"
| "join_cells [s] = s"
| "join_cells (s # t # ss) = s @ COMMA # join_cells (t # ss)"

definition writerow :: "string list \<Rightarrow> string" where
  "writerow vs = join_cells (map quote_cell vs) @ [CR, LF]"

text \<open>
  \<open>DictWriter._dict_to_list\<close> with the default \<open>extrasaction='raise'\<close> and
  \<open>restval=''\<close>: a key of the row outside \<open>fieldnames\<close> raises \<open>ValueError\<close>;
  otherwise the row's values are listed in the iteration order of \<open>fieldnames\<close>, a
  missing one as the empty string.
\<close>

definition row_values :: "string list \<Rightarrow> row \<Rightarrow> string list" where
  "row_values fieldnames r =
     map (\<lambda>k. case map_of (cells r) k of
                  None \<Rightarrow> []
                | Some None \<Rightarrow> []
                | Some (Some s) \<Rightarrow> s) fieldnames"

definition dict_to_list :: "string list \<Rightarrow> row \<Rightarrow> py_error + string list" where
  "dict_to_list fieldnames r =
     (if extra r \<noteq> None \<or> (\<exists>k \<in> set (map fst (cells r)). k \<notin> set fieldnames)
      then Inl ValueError
      else Inr (row_values fieldnames r))"

text \<open>
  \<open>writerows\<close>: the rows are converted and written one after the other; the first
  row that raises stops the writing, and what was written before stays in the file.
\<close>

fun writerows :: "string list \<Rightarrow> row list \<Rightarrow> py_error option \<times> string" where
  "writerows fieldnames [] = (None, [])"
| "writerows fieldnames (r # rs) =
     (case dict_to_list fieldnames r of
        Inl e \<Rightarrow> (Some e, [])
      | Inr vs \<Rightarrow> (case writerows fieldnames rs of (res, txt) \<Rightarrow> (res, writerow vs @ txt)))"

text \<open>
  \<open>write_csv(filename, headers, dataset)\<close>: the file is opened for writing (its old
  content is gone), the header line lists \<open>fieldnames\<close> in its iteration order, the
  rows follow. It returns \<open>True\<close>. The file is opened in text mode on a POSIX system
  with a UTF-8 locale, so the text written is the content of the file.
\<close>

definition write_csv :: "string \<Rightarrow> string list \<Rightarrow> row list \<Rightarrow> world \<Rightarrow> (py_error + bool) \<times> world" where
  "write_csv filename headers dataset w =
     (case writerows headers dataset of
        (res, txt) \<Rightarrow>
          ((case res of None \<Rightarrow> Inr True | Some e \<Rightarrow> Inl e),
           w\<lparr>files := (files w)(filename \<mapsto> writerow headers @ txt)\<rparr>))"

section \<open>\<open>prompt_user_for_account\<close>\<close>

text \<open>
  \<open>input(prompt)\<close> prints the prompt and returns the next line the operator types,
  without its line end; at the end of the input it raises \<open>EOFError\<close>.
\<close>

definition prompt_text :: "cell \<Rightarrow> cell \<Rightarrow> string" where
  "prompt_text ident name =
     ''Please enter the account number for '' @ [CHR 0x27] @ py_str name @ [CHR 0x27]
       @ '' aka ID '' @ py_str ident @ '': ''"

definition prompt_user_for_account :: "cell \<Rightarrow> cell \<Rightarrow> world \<Rightarrow> (py_error + string) \<times> world" where
  "prompt_user_for_account ident name w =
     (let w1 = w\<lparr>prompts := prompts w @ [prompt_text ident name]\<rparr>
      in case answers w of
           [] \<Rightarrow> (Inl EOFError, w1)
         | a # rest \<Rightarrow> (Inr a, w1\<lparr>answers := rest\<rparr>))"

section \<open>\<open>convert_formats\<close>\<close>

text \<open>
  One pair of the rename table: when the row has the source field, its value is stored
  under the destination name and the source field is deleted.
\<close>

definition rename_field :: "string \<times> string \<Rightarrow> row \<Rightarrow> row" where
  "rename_field p r =
     (case map_of (cells r) (fst p) of
        None \<Rightarrow> r
      | Some v \<Rightarrow> r\<lparr>cells := AList.delete (fst p) (AList.update (snd p) v (cells r))\<rparr>)"

definition rename_fields :: "row \<Rightarrow> row" where
  "rename_fields r = fold rename_field FIELD_NAME_CHANGE r"

text \<open>
  The new mapping entry is built from the row after its account number was set:
  \<open>{"Customer ID": row['Customer ID'], "Company Name": row['Company Name'],
  "Account Number": row['Account Number']}\<close>.
\<close>

definition new_entry :: "row \<Rightarrow> py_error + row" where
  "new_entry r =
     (case getitem (cells r) ''Customer ID'' of
        Inl e \<Rightarrow> Inl e
      | Inr i \<Rightarrow>
         (case getitem (cells r) ''Company Name'' of
            Inl e \<Rightarrow> Inl e
          | Inr n \<Rightarrow>
             (case getitem (cells r) ''Account Number'' of
                Inl e \<Rightarrow> Inl e
              | Inr a \<Rightarrow>
                 Inr \<lparr>cells = [(''Customer ID'', i), (''Company Name'', n),
                               (''Account Number'', a)],
                      extra = None\<rparr>)))"

text \<open>
  The branch for an account key that is not in the mapping table: prompt, set the
  row's account number, store the new entry, rewrite the mapping file. \<open>mh\<close> is the
  iteration order of \<open>MAPPING_HEADERS\<close> in this run.
\<close>

definition add_account :: "string list \<Rightarrow> row \<Rightarrow> mapping \<Rightarrow> world \<Rightarrow> (py_error + row \<times> mapping) \<times> world" where
  "add_account mh r m w =
     (case getitem (cells r) ''Customer ID'' of
        Inl e \<Rightarrow> (Inl e, w)
      | Inr ident \<Rightarrow>
         (case getitem (cells r) ''Company Name'' of
            Inl e \<Rightarrow> (Inl e, w)
          | Inr name \<Rightarrow>
             (case prompt_user_for_account ident name w of
                (Inl e, w1) \<Rightarrow> (Inl e, w1)
              | (Inr a, w1) \<Rightarrow>
                 (let r1 = setitem r ''Account Number'' (Some a) in
                  case new_entry r1 of
                    Inl e \<Rightarrow> (Inl e, w1)
                  | Inr ent \<Rightarrow>
                     (case getitem (cells r1) ACCOUNT_KEY of
                        Inl e \<Rightarrow> (Inl e, w1)
                      | Inr key1 \<Rightarrow>
                         (let m1 = AList.update key1 ent m in
                          case write_csv DEFAULT_MAPPING_CSV_FILENAME mh (map snd m1) w1 of
                            (Inl e, w2) \<Rightarrow> (Inl e, w2)
                          | (Inr ok, w2) \<Rightarrow> (Inr (r1, m1), w2)))))))"

text \<open>The branch for an account key that is in the mapping table.\<close>

definition copy_account :: "cell \<Rightarrow> row \<Rightarrow> mapping \<Rightarrow> py_error + row" where
  "copy_account key r m =
     (case getitem m key of
        Inl e \<Rightarrow> Inl e
      | Inr ent \<Rightarrow>
         (case getitem (cells ent) ''Account Number'' of
            Inl e \<Rightarrow> Inl e
          | Inr a \<Rightarrow> Inr (setitem r ''Account Number'' a)))"

text \<open>The account-number step of the loop body.\<close>

definition resolve_account :: "string list \<Rightarrow> row \<Rightarrow> mapping \<Rightarrow> world \<Rightarrow> (py_error + row \<times> mapping) \<times> world" where
  "resolve_account mh r m w =
     (case getitem (cells r) ACCOUNT_KEY of
        Inl e \<Rightarrow> (Inl e, w)
      | Inr key \<Rightarrow>
         (if key \<notin> set (map fst m) then add_account mh r m w
          else (case copy_account key r m of
                  Inl e \<Rightarrow> (Inl e, w)
                | Inr r1 \<Rightarrow> (Inr (r1, m), w))))"

text \<open>The body of the loop: the account number, then the renames.\<close>

definition convert_row :: "string list \<Rightarrow> row \<Rightarrow> mapping \<Rightarrow> world \<Rightarrow> (py_error + row \<times> mapping) \<times> world" where
  "convert_row mh r m w =
     (case resolve_account mh r m w of
        (Inl e, w1) \<Rightarrow> (Inl e, w1)
      | (Inr (r1, m1), w1) \<Rightarrow> (Inr (rename_fields r1, m1), w1))"

text \<open>
  The loop over \<open>accounting_data\<close>. The rows are changed in place and the list itself
  is returned; the mapping table is changed in place too, so the model returns it as
  well.
\<close>

fun convert_formats :: "string list \<Rightarrow> row list \<Rightarrow> mapping \<Rightarrow> world \<Rightarrow> (py_error + row list \<times> mapping) \<times> world" where
  "convert_formats mh [] m w = (Inr ([], m), w)"
| "convert_formats mh (r # rs) m w =
     (case convert_row mh r m w of
        (Inl e, w1) \<Rightarrow> (Inl e, w1)
      | (Inr (r1, m1), w1) \<Rightarrow>
          (case convert_formats mh rs m1 w1 of
             (Inl e, w2) \<Rightarrow> (Inl e, w2)
           | (Inr (rs1, m2), w2) \<Rightarrow> (Inr (r1 # rs1, m2), w2)))"

section \<open>\<open>write_billing_csv\<close>\<close>

text \<open>
  \<open>strftime("%Y%m%d_%H%M")\<close>: the year in four digits, month, day, hour and minute
  in two digits each, padded with zeros (the years from 1000 on, which a clock read
  by \<open>datetime.now()\<close> shows, need no padding).
\<close>

definition digit :: "nat \<Rightarrow> char" where
  "digit n = ''0123456789'' ! n"

fun decimal :: "nat \<Rightarrow> string" where
  "decimal n = (if n < 10 then [digit n] else decimal (n div 10) @ [digit (n mod 10)])"

declare decimal.simps [simp del]

definition zero_pad :: "nat \<Rightarrow> nat \<Rightarrow> string" where
  "zero_pad width n = replicate (width - length (decimal n)) (CHR ''0'') @ decimal n"

definition strftime :: "timestamp \<Rightarrow> string" where
  "strftime t = zero_pad 4 (year t) @ zero_pad 2 (month t) @ zero_pad 2 (day t) @ ''_''
                  @ zero_pad 2 (hour t) @ zero_pad 2 (minute t)"

definition billing_filename :: "string \<Rightarrow> world \<Rightarrow> string" where
  "billing_filename user_filename w =
     (if user_filename = DEFAULT_DEST_CSV_FILENAME
      then DEFAULT_DEST_CSV_FILENAME_PREFIX @ strftime (now w) @ ''.csv''
      else user_filename)"

text \<open>
  \<open>bh\<close> is the iteration order of \<open>BILLING_HEADERS\<close> in this run. The function has
  no \<open>return\<close> statement: when \<open>write_csv\<close> returns, its value is dropped and the
  result is \<open>None\<close>, here the unit value.
\<close>

definition write_billing_csv :: "string list \<Rightarrow> row list \<Rightarrow> string \<Rightarrow> world \<Rightarrow> (py_error + unit) \<times> world" where
  "write_billing_csv bh data user_filename w =
     (case write_csv (billing_filename user_filename w) bh data w of
        (Inl e, w1) \<Rightarrow> (Inl e, w1)
      | (Inr ok, w1) \<Rightarrow> (Inr (), w1))"

section \<open>\<open>load_csv\<close>: reading a file through \<open>csv.DictReader\<close>\<close>

subsection \<open>The text of the file\<close>

text \<open>
  \<open>open(filename, encoding='utf-8-sig')\<close>: a file that does not exist raises
  \<open>FileNotFoundError\<close>; a byte-order mark at the start of the file is dropped. The
  file is opened without \<open>newline=''\<close>, so it is read in universal-newlines mode:
  CR LF and a lone CR both arrive as LF. Iterating the file yields its lines, each
  with its LF, the last one without when the text does not end in LF.
\<close>

definition BOM :: string where
  "BOM = [CHR 0xEF, CHR 0xBB, CHR 0xBF]"

definition decode_utf8_sig :: "string \<Rightarrow> string" where
  "decode_utf8_sig s = (if take 3 s = BOM then drop 3 s else s)"

fun universal_newlines :: "string \<Rightarrow> string" where
  "universal_newlines [] = []"
| "universal_newlines [c] = (if c = CR then [LF] else [c])"
| "universal_newlines (c # d # ds) =
     (if c = CR \<and> d = LF then LF # universal_newlines ds
      else if c = CR then LF # universal_newlines (d # ds)
      else c # universal_newlines (d # ds))"

fun split_lines :: "string \<Rightarrow> string list" where
  "split_lines [] = []"
| "split_lines (c # cs) =
     (if c = LF then [c] # split_lines cs
      else (case split_lines cs of [] \<Rightarrow> [[c]] | l # ls \<Rightarrow> (c # l) # ls))"

subsection \<open>The parser of the \<open>csv\<close> module\<close>

text \<open>
  The reader of the \<open>csv\<close> module (CPython's \<open>Modules/_csv.c\<close>) with the dialect
  \<open>load_csv\<close> passes: \<open>delimiter=','\<close>, the default \<open>quotechar='"'\<close>,
  \<open>doublequote=True\<close>, no escape character, \<open>skipinitialspace=False\<close>,
  \<open>strict=False\<close>; \<open>quoting=QUOTE_ALL\<close> and \<open>lineterminator\<close> do not change how a
  reader parses. It is a state machine fed one character at a time and, after the last
  character of every line, the end-of-line signal (\<open>None\<close> here). A field that would
  grow beyond the module's field size limit (131072 characters by default; counted
  here in the characters of the model) raises \<open>csv.Error\<close>.
\<close>

datatype parser_state =
  START_RECORD | START_FIELD | IN_FIELD | IN_QUOTED_FIELD | QUOTE_IN_QUOTED_FIELD | EAT_CRNL

record reader =
  state :: parser_state
  rec_fields :: "string list"
  field :: string

definition FIELD_LIMIT :: nat where
  "FIELD_LIMIT = 131072"

definition parse_reset :: reader where
  "parse_reset = \<lparr>state = START_RECORD, rec_fields = [], field = []\<rparr>"

definition parse_add_char :: "reader \<Rightarrow> char \<Rightarrow> py_error + reader" where
  "parse_add_char rd c =
     (if FIELD_LIMIT \<le> length (field rd) then Inl CsvError
      else Inr (rd\<lparr>field := field rd @ [c]\<rparr>))"

definition parse_save_field :: "reader \<Rightarrow> reader" where
  "parse_save_field rd = rd\<lparr>rec_fields := rec_fields rd @ [field rd], field := []\<rparr>"

definition end_of_line :: "char option \<Rightarrow> bool" where
  "end_of_line c = (c = None \<or> c = Some LF \<or> c = Some CR)"

definition after_line_end :: "char option \<Rightarrow> parser_state" where
  "after_line_end c = (if c = None then START_RECORD else EAT_CRNL)"

text \<open>The case \<open>START_FIELD\<close>, which the case \<open>START_RECORD\<close> falls through to.\<close>

definition start_field :: "reader \<Rightarrow> char option \<Rightarrow> py_error + reader" where
  "start_field rd c =
     (if end_of_line c then Inr ((parse_save_field rd)\<lparr>state := after_line_end c\<rparr>)
      else if c = Some DQUOTE then Inr (rd\<lparr>state := IN_QUOTED_FIELD\<rparr>)
      else if c = Some COMMA then Inr (parse_save_field rd)
      else (case parse_add_char rd (the c) of
              Inl e \<Rightarrow> Inl e
            | Inr rd1 \<Rightarrow> Inr (rd1\<lparr>state := IN_FIELD\<rparr>)))"

definition parse_process_char :: "reader \<Rightarrow> char option \<Rightarrow> py_error + reader" where
  "parse_process_char rd c =
     (case state rd of
        START_RECORD \<Rightarrow>
          (if c = None then Inr rd
           else if c = Some LF \<or> c = Some CR then Inr (rd\<lparr>state := EAT_CRNL\<rparr>)
           else start_field (rd\<lparr>state := START_FIELD\<rparr>) c)
      | START_FIELD \<Rightarrow> start_field rd c
      | IN_FIELD \<Rightarrow>
          (if end_of_line c then Inr ((parse_save_field rd)\<lparr>state := after_line_end c\<rparr>)
           else if c = Some COMMA then Inr ((parse_save_field rd)\<lparr>state := START_FIELD\<rparr>)
           else parse_add_char rd (the c))
      | IN_QUOTED_FIELD \<Rightarrow>
          (if c = None then Inr rd
           else if c = Some DQUOTE then Inr (rd\<lparr>state := QUOTE_IN_QUOTED_FIELD\<rparr>)
           else parse_add_char rd (the c))
      | QUOTE_IN_QUOTED_FIELD \<Rightarrow>
          (if c = Some DQUOTE then
             (case parse_add_char rd DQUOTE of
                Inl e \<Rightarrow> Inl e
              | Inr rd1 \<Rightarrow> Inr (rd1\<lparr>state := IN_QUOTED_FIELD\<rparr>))
           else if c = Some COMMA then Inr ((parse_save_field rd)\<lparr>state := START_FIELD\<rparr>)
           else if end_of_line c then Inr ((parse_save_field rd)\<lparr>state := after_line_end c\<rparr>)
           else (case parse_add_char rd (the c) of
                   Inl e \<Rightarrow> Inl e
                 | Inr rd1 \<Rightarrow> Inr (rd1\<lparr>state := IN_FIELD\<rparr>)))
      | EAT_CRNL \<Rightarrow>
          (if c = Some LF \<or> c = Some CR then Inr rd
           else if c = None then Inr (rd\<lparr>state := START_RECORD\<rparr>)
           else Inl CsvError))"

text \<open>One line: its characters, then the end-of-line signal.\<close>

fun process_chars :: "reader \<Rightarrow> string \<Rightarrow> py_error + reader" where
  "process_chars rd [] = parse_process_char rd None"
| "process_chars rd (c # cs) =
     (case parse_process_char rd (Some c) of
        Inl e \<Rightarrow> Inl e
      | Inr rd1 \<Rightarrow> process_chars rd1 cs)"

text \<open>
  The iteration of the reader. A record is complete when a line ends in the state
  \<open>START_RECORD\<close>; otherwise the next line continues it (a line break inside a quoted
  field). At the end of the input a record under way is returned if a field is being
  read or a quoted field is open. The result is the list of records read, and the
  exception, if one was raised, after them.
\<close>

fun read_records :: "reader \<Rightarrow> string list \<Rightarrow> string list list \<times> py_error option" where
  "read_records rd [] =
     (if field rd \<noteq> [] \<or> state rd = IN_QUOTED_FIELD
      then ([rec_fields (parse_save_field rd)], None)
      else ([], None))"
| "read_records rd (l # ls) =
     (case process_chars rd l of
        Inl e \<Rightarrow> ([], Some e)
      | Inr rd1 \<Rightarrow>
          (if state rd1 = START_RECORD
           then (case read_records parse_reset ls of (rs, e) \<Rightarrow> (rec_fields rd1 # rs, e))
           else read_records rd1 ls))"

definition csv_reader :: "string list \<Rightarrow> string list list \<times> py_error option" where
  "csv_reader ls = read_records parse_reset ls"

subsection \<open>\<open>csv.DictReader\<close>\<close>

text \<open>
  \<open>dict(zip(fieldnames, row))\<close>: a name that occurs twice keeps its first place and
  its last value.
\<close>

definition py_dict :: "('k \<times> 'v) list \<Rightarrow> ('k \<times> 'v) list" where
  "py_dict kvs = fold (\<lambda>kv d. AList.update (fst kv) (snd kv) d) kvs []"

text \<open>
  One row of the \<open>DictReader\<close>: the cells are named by the header; the surplus cells
  of a long line go under the key \<open>None\<close>, the missing cells of a short line are
  \<open>None\<close>.
\<close>

definition dict_row :: "string list \<Rightarrow> string list \<Rightarrow> row" where
  "dict_row fieldnames r =
     (let lf = length fieldnames; lr = length r; d = py_dict (zip fieldnames (map Some r))
      in if lf < lr then \<lparr>cells = d, extra = Some (drop lf r)\<rparr>
         else \<lparr>cells = fold (\<lambda>k d. AList.update k None d) (drop lr fieldnames) d,
               extra = None\<rparr>)"

text \<open>
  The first record is the header, whatever it is; of the others, the empty ones
  (blank lines) are skipped.
\<close>

definition dict_reader :: "string list list \<Rightarrow> row list" where
  "dict_reader recs =
     (case recs of
        [] \<Rightarrow> []
      | fieldnames # rest \<Rightarrow> map (dict_row fieldnames) (filter (\<lambda>r. r \<noteq> []) rest))"

subsection \<open>\<open>load_csv\<close>\<close>

text \<open>The result is a list of rows or, with \<open>load_as_dict\<close>, a dictionary of rows.\<close>

datatype dataset = RowList "row list" | RowDict mapping

text \<open>The loop with \<open>load_as_dict\<close>: \<open>dataset[row[ACCOUNT_KEY]] = row\<close>.\<close>

fun load_dict :: "row list \<Rightarrow> mapping \<Rightarrow> py_error + mapping" where
  "load_dict [] d = Inr d"
| "load_dict (r # rs) d =
     (case getitem (cells r) ACCOUNT_KEY of
        Inl e \<Rightarrow> Inl e
      | Inr k \<Rightarrow> load_dict rs (AList.update k r d))"

text \<open>
  The rows are read one at a time, so an exception of the parser reaches the loop
  only after the rows before it went through. \<open>headers\<close> is not used by the function.
  Reading leaves the world as it is.
\<close>

definition load_csv :: "string \<Rightarrow> string set \<Rightarrow> bool \<Rightarrow> world \<Rightarrow> py_error + dataset" where
  "load_csv filename headers load_as_dict w =
     (case files w filename of
        None \<Rightarrow> Inl FileNotFoundError
      | Some txt \<Rightarrow>
          (case csv_reader (split_lines (universal_newlines (decode_utf8_sig txt))) of
             (recs, err) \<Rightarrow>
               (if load_as_dict then
                  (case load_dict (dict_reader recs) [] of
                     Inl e \<Rightarrow> Inl e
                   | Inr d \<Rightarrow> (case err of Some e \<Rightarrow> Inl e | None \<Rightarrow> Inr (RowDict d)))
                else (case err of Some e \<Rightarrow> Inl e | None \<Rightarrow> Inr (RowList (dict_reader recs))))))"

section \<open>The main program\<close>

text \<open>
  \<open>for row in accounting_data\<close> needs a list of rows, \<open>mapping_data.keys()\<close> a
  dictionary; \<open>load_csv\<close> returns the one or the other according to its flag.
\<close>

definition as_rows :: "dataset \<Rightarrow> py_error + row list" where
  "as_rows d = (case d of RowList rs \<Rightarrow> Inr rs | RowDict m \<Rightarrow> Inl TypeError)"

definition as_dict :: "dataset \<Rightarrow> py_error + mapping" where
  "as_dict d = (case d of RowDict m \<Rightarrow> Inr m | RowList rs \<Rightarrow> Inl AttributeError)"

text \<open>\<open>Path(DEFAULT_MAPPING_CSV_FILENAME).touch()\<close> when the file does not exist.\<close>

definition create_mapping_if_missing :: "world \<Rightarrow> world" where
  "create_mapping_if_missing w =
     (if files w DEFAULT_MAPPING_CSV_FILENAME = None
      then w\<lparr>files := (files w)(DEFAULT_MAPPING_CSV_FILENAME \<mapsto> [])\<rparr>
      else w)"

text \<open>
  The statements under \<open>__main__\<close> (logging aside). \<open>mh\<close> and \<open>bh\<close> are the orders in
  which this run iterates \<open>MAPPING_HEADERS\<close> and \<open>BILLING_HEADERS\<close>;
  \<open>source_csv_filename\<close> and \<open>dest_csv_filename\<close> are the parsed arguments.
\<close>

definition convert_and_write :: "string list \<Rightarrow> string list \<Rightarrow> string \<Rightarrow> row list \<Rightarrow> mapping \<Rightarrow> world \<Rightarrow> (py_error + unit) \<times> world" where
  "convert_and_write mh bh dest_csv_filename this_months_data account_mapping w =
     (case convert_formats mh this_months_data account_mapping w of
        (Inl e, w1) \<Rightarrow> (Inl e, w1)
      | (Inr (processed_data, m1), w1) \<Rightarrow> write_billing_csv bh processed_data dest_csv_filename w1)"

definition main :: "string list \<Rightarrow> string list \<Rightarrow> string \<Rightarrow> string \<Rightarrow> world \<Rightarrow> (py_error + unit) \<times> world" where
  "main mh bh source_csv_filename dest_csv_filename w =
     (case load_csv source_csv_filename SOURCE_HEADERS False w of
        Inl e \<Rightarrow> (Inl e, w)
      | Inr source_data \<Rightarrow>
          (let w1 = create_mapping_if_missing w in
           case load_csv DEFAULT_MAPPING_CSV_FILENAME MAPPING_HEADERS True w1 of
             Inl e \<Rightarrow> (Inl e, w1)
           | Inr mapping_data \<Rightarrow>
               (case as_rows source_data of
                  Inl e \<Rightarrow> (Inl e, w1)
                | Inr this_months_data \<Rightarrow>
                    (case as_dict mapping_data of
                       Inl e \<Rightarrow> (Inl e, w1)
                     | Inr account_mapping \<Rightarrow>
                         convert_and_write mh bh dest_csv_filename
                           this_months_data account_mapping w1))))"

section \<open>Vocabulary of the properties\<close>

text \<open>
  A row the mapping writer accepts: no surplus cells and no field outside
  \<open>MAPPING_HEADERS\<close>.
\<close>

definition mapping_row_ok :: "row \<Rightarrow> bool" where
  "mapping_row_ok e = (extra e = None \<and> set (map fst (cells e)) \<subseteq> MAPPING_HEADERS)"

text \<open>The entry \<open>convert_formats\<close> stores for a new account.\<close>

definition mapping_entry :: "cell \<Rightarrow> cell \<Rightarrow> string \<Rightarrow> row" where
  "mapping_entry ident name a =
     \<lparr>cells = [(''Customer ID'', ident), (''Company Name'', name), (''Account Number'', Some a)],
      extra = None\<rparr>"

text \<open>The text of a file written in full: the header line, then one line per row.\<close>

definition csv_text :: "string list \<Rightarrow> row list \<Rightarrow> string" where
  "csv_text hs rs = writerow hs @ concat (map (\<lambda>r. writerow (row_values hs r)) rs)"

text \<open>
  The inputs at which the theorems are instantiated: the row of the documented
  end-to-end example, a mapping table with one other account, an operator who types
  \<open>ACC-1\<close>, and one iteration order for each header set.
\<close>

definition example_mh :: "string list" where
  "example_mh = [''Customer ID'', ''Company Name'', ''Account Number'']"

definition example_bh :: "string list" where
  "example_bh = [''No'', ''Customer ID'', ''Company Name'', ''Account Number'', ''Flat Charge'',
     ''Current Volume'', ''Current Amount'', ''YTD Volume'', ''YTD Amount'']"

definition example_row :: row where
  "example_row = \<lparr>cells = [(''No'', Some ''1''), (''Customer ID'', Some ''C1''),
      (''Company Name'', Some ''Acme''), (''Flat Charge'', Some ''10''),
      (''Current Volume'', Some ''5''), (''Current Amount'', Some ''50''),
      (''YTD Volume'', Some ''20''), (''YTD Amount'', Some ''200'')], extra = None\<rparr>"

definition example_mapping :: mapping where
  "example_mapping = [(Some ''C0'', mapping_entry (Some ''C0'') (Some ''Zenith'') ''ACC-0'')]"

definition known_mapping :: mapping where
  "known_mapping = [(Some ''C1'', mapping_entry (Some ''C1'') (Some ''Acme'') ''ACC-1'')]"

definition example_world :: world where
  "example_world = \<lparr>answers = [''ACC-1''], prompts = [], files = Map.empty,
      now = \<lparr>year = 2024, month = 3, day = 5, hour = 14, minute = 7\<rparr>\<rparr>"

definition silent_world :: world where
  "silent_world = \<lparr>answers = [[]], prompts = [], files = Map.empty,
      now = \<lparr>year = 2024, month = 3, day = 5, hour = 14, minute = 7\<rparr>\<rparr>"

text \<open>
  A reading of the local clock, as \<open>datetime.now()\<close> returns it on a machine whose
  clock shows a year of four digits: a year from 1000 to 9999, a month, a day of the
  month, an hour and a minute.
\<close>

definition clock_reading :: "timestamp \<Rightarrow> bool" where
  "clock_reading t =
     (1000 \<le> year t \<and> year t \<le> 9999 \<and> 1 \<le> month t \<and> month t \<le> 12
      \<and> 1 \<le> day t \<and> day t \<le> 31 \<and> hour t \<le> 23 \<and> minute t \<le> 59)"

text \<open>\<open>row[ACCOUNT_KEY]\<close>, when the row has that field.\<close>

definition account_key_of :: "row \<Rightarrow> cell option" where
  "account_key_of r = map_of (cells r) ACCOUNT_KEY"

text \<open>The last row, in file order, whose account key is \<open>k\<close>.\<close>

definition last_with_key :: "cell \<Rightarrow> row list \<Rightarrow> row option" where
  "last_with_key k rows =
     (case filter (\<lambda>r. account_key_of r = Some k) rows of
        [] \<Rightarrow> None
      | x # xs \<Rightarrow> Some (last (x # xs)))"

text \<open>
  A string the mapping file keeps as it is: no carriage return (the file is read in
  universal-newlines mode) and no longer than the field size limit of the reader.
\<close>

definition storable :: "string \<Rightarrow> bool" where
  "storable s = (CR \<notin> set s \<and> length s \<le> FIELD_LIMIT)"

text \<open>
  An entry of the mapping table as the data model has it: the three fields of the
  mapping header, each a string, filed under the entry's own Customer ID.
\<close>

definition entry_ok :: "cell \<Rightarrow> row \<Rightarrow> bool" where
  "entry_ok k e =
     (extra e = None \<and> set (map fst (cells e)) = MAPPING_HEADERS
      \<and> map_of (cells e) ACCOUNT_KEY = Some k
      \<and> list_all (\<lambda>p. case snd p of None \<Rightarrow> False | Some s \<Rightarrow> storable s) (cells e))"

text \<open>A mapping table: one entry per key, every entry as above.\<close>

definition mapping_table_ok :: "mapping \<Rightarrow> bool" where
  "mapping_table_ok m = (distinct (map fst m) \<and> list_all (\<lambda>p. entry_ok (fst p) (snd p)) m)"

text \<open>
  More example inputs: a mapping file in which two lines share the identifier
  \<open>C1\<close>, and a mapping table with two accounts.
\<close>

definition duplicate_world :: world where
  "duplicate_world = \<lparr>answers = [], prompts = [],
      files = [DEFAULT_MAPPING_CSV_FILENAME \<mapsto>
                 writerow example_mh @ writerow [''C1'', ''Acme'', ''ACC-1'']
                   @ writerow [''C1'', ''Acme Ltd'', ''ACC-2'']],
      now = \<lparr>year = 2024, month = 3, day = 5, hour = 14, minute = 7\<rparr>\<rparr>"

definition two_accounts :: mapping where
  "two_accounts = [(Some ''C1'', mapping_entry (Some ''C1'') (Some ''Acme'') ''ACC-1''),
                   (Some ''C0'', mapping_entry (Some ''C0'') (Some ''Zenith'') ''ACC-0'')]"

text \<open>Every row has an account key, and the mapping table has an entry for it.\<close>

definition all_known :: "mapping \<Rightarrow> row list \<Rightarrow> bool" where
  "all_known m rows =
     list_all (\<lambda>r. case account_key_of r of None \<Rightarrow> False | Some k \<Rightarrow> k \<in> set (map fst m)) rows"

text \<open>
  A source file and a mapping file for the same account, every cell quoted and every
  line ended by CR LF, in a world with no operator input; the first run of the
  program in that world; and a second run, a day later, in the world the first run
  left, by a process that iterates \<open>BILLING_HEADERS\<close> in another order.
\<close>

definition source_text :: string where
  \<open>source_text =
     ''"No","Customer ID","Company Name","Flat Charge","Current Volume","Current Amount","YTD Volume","YTD Amount"''
       @ [CHR 0x0D, CHR 0x0A]
     @ ''"1","C1","Acme","10","5","50","20","200"'' @ [CHR 0x0D, CHR 0x0A]\<close>

definition mapping_text :: string where
  \<open>mapping_text =
     ''"Customer ID","Company Name","Account Number"'' @ [CHR 0x0D, CHR 0x0A]
     @ ''"C1","Acme","ACC-1"'' @ [CHR 0x0D, CHR 0x0A]\<close>

definition populated_world :: world where
  "populated_world = \<lparr>answers = [], prompts = [],
      files = [DEFAULT_SOURCE_CSV_FILENAME \<mapsto> source_text,
               DEFAULT_MAPPING_CSV_FILENAME \<mapsto> mapping_text],
      now = \<lparr>year = 2024, month = 3, day = 5, hour = 14, minute = 7\<rparr>\<rparr>"

definition next_day :: timestamp where
  "next_day = \<lparr>year = 2024, month = 3, day = 6, hour = 9, minute = 0\<rparr>"

definition first_run :: "(py_error + unit) \<times> world" where
  "first_run = main example_mh example_bh DEFAULT_SOURCE_CSV_FILENAME DEFAULT_DEST_CSV_FILENAME
                 populated_world"

definition second_run_reordered :: "(py_error + unit) \<times> world" where
  "second_run_reordered =
     main example_mh (rev example_bh) DEFAULT_SOURCE_CSV_FILENAME DEFAULT_DEST_CSV_FILENAME
       ((snd first_run)\<lparr>now := next_day\<rparr>)"



definition long_line_world :: world where
  \<open>long_line_world = \<lparr>answers = [[]], prompts = [],
      files = [DEFAULT_SOURCE_CSV_FILENAME \<mapsto> source_text,
               DEFAULT_MAPPING_CSV_FILENAME \<mapsto>
                 ''"Customer ID","Company Name","Account Number"'' @ [CHR 0x0D, CHR 0x0A]
                 @ ''"C0","Zenith","ACC-0","vip"'' @ [CHR 0x0D, CHR 0x0A]],
      now = \<lparr>year = 2024, month = 3, day = 5, hour = 14, minute = 7\<rparr>\<rparr>\<close>

definition long_line_mapping :: mapping where
  "long_line_mapping =
     [(Some ''C0'', \<lparr>cells = [(''Customer ID'', Some ''C0''), (''Company Name'', Some ''Zenith''),
                               (''Account Number'', Some ''ACC-0'')],
                      extra = Some [''vip'']\<rparr>)]"

section \<open>Devices of the proofs about the reader\<close>

text \<open>
  The reader run over the whole text instead of over its lines: after every LF the
  end-of-line signal follows. For a text that ends in LF (or is empty) this is
  \<open>read_records\<close> on the lines of the text (lemma \<open>read_records_feed\<close>).
\<close>

fun feed :: "reader \<Rightarrow> string \<Rightarrow> string list list \<times> py_error option" where
  "feed rd [] = read_records rd []"
| "feed rd (c # cs) =
     (case parse_process_char rd (Some c) of
        Inl e \<Rightarrow> ([], Some e)
      | Inr rd1 \<Rightarrow>
          (if c = LF then
             (case parse_process_char rd1 None of
                Inl e \<Rightarrow> ([], Some e)
              | Inr rd2 \<Rightarrow>
                  (if state rd2 = START_RECORD
                   then (case feed parse_reset cs of (rs, e) \<Rightarrow> (rec_fields rd2 # rs, e))
                   else feed rd2 cs))
           else feed rd1 cs))"

text \<open>A line of the writer after the translation of its line end.\<close>

definition text_line :: "string list \<Rightarrow> string" where
  "text_line vs = join_cells (map quote_cell vs) @ [LF]"

section \<open>Facts about the writer\<close>

lemma writerows_ok:
  "(\<And>r. r \<in> set rs \<Longrightarrow> extra r = None \<and> set (map fst (cells r)) \<subseteq> set hs)
   \<Longrightarrow> writerows hs rs = (None, concat (map (\<lambda>r. writerow (row_values hs r)) rs))"
  by (induction rs) (auto simp: dict_to_list_def)

lemma write_csv_ok:
  assumes "\<And>r. r \<in> set rs \<Longrightarrow> extra r = None \<and> set (map fst (cells r)) \<subseteq> set hs"
  shows "write_csv f hs rs w = (Inr True, w\<lparr>files := (files w)(f \<mapsto> csv_text hs rs)\<rparr>)"
  using writerows_ok[OF assms] by (simp add: write_csv_def csv_text_def)

lemma write_csv_files:
  "files (snd (write_csv f hs rs w)) = (files w)(f \<mapsto> writerow hs @ snd (writerows hs rs))"
  by (simp add: write_csv_def split: prod.splits)

lemma write_billing_files:
  "files (snd (write_billing_csv bh out dest w))
     = (files w)(billing_filename dest w \<mapsto> writerow bh @ snd (writerows bh out))"
  by (simp add: write_billing_csv_def write_csv_def split: prod.splits option.splits)

lemma csv_text_snoc: "csv_text hs (rs @ [e]) = csv_text hs rs @ writerow (row_values hs e)"
  by (simp add: csv_text_def)

lemma map_of_zip_same:
  "map_of (zip hs (map f hs)) k = (if k \<in> set hs then Some (f k) else None)"
  by (induction hs) auto

lemma field_written:
  "k \<in> set hs \<Longrightarrow> map_of (cells r) k = Some v
   \<Longrightarrow> map_of (zip hs (row_values hs r)) k = Some (case v of None \<Rightarrow> [] | Some s \<Rightarrow> s)"
  by (simp add: row_values_def map_of_zip_same split: option.splits)

section \<open>Facts about rows\<close>

lemma update_absent: "k \<notin> set (map fst m) \<Longrightarrow> AList.update k v m = m @ [(k, v)]"
  by (induction m) auto

lemma keys_setitem: "fst ` set (cells (setitem r k v)) = insert k (fst ` set (cells r))"
  by (simp add: setitem_def dom_update)

lemma extra_setitem: "extra (setitem r k v) = extra r"
  by (simp add: setitem_def)

lemma map_of_setitem:
  "map_of (cells (setitem r k v)) f = (if f = k then Some v else map_of (cells r) f)"
  by (simp add: setitem_def update_conv')

lemma rename_fields_noop:
  "map_of (cells r) ''SOURCE_FIELD_NAME'' = None \<Longrightarrow> rename_fields r = r"
  by (simp add: rename_fields_def FIELD_NAME_CHANGE_def rename_field_def)

lemma rename_field_other:
  "f \<noteq> fst p \<Longrightarrow> f \<noteq> snd p \<Longrightarrow> map_of (cells (rename_field p r)) f = map_of (cells r) f"
  by (simp add: rename_field_def update_conv' delete_conv' split: option.splits)

lemma rename_field_extra: "extra (rename_field p r) = extra r"
  by (simp add: rename_field_def split: option.splits)

lemma fold_rename_other:
  "f \<notin> set (map fst tbl) \<Longrightarrow> f \<notin> set (map snd tbl)
   \<Longrightarrow> map_of (cells (fold rename_field tbl r)) f = map_of (cells r) f"
  by (induction tbl arbitrary: r) (auto simp: rename_field_other)

lemma fold_rename_extra: "extra (fold rename_field tbl r) = extra r"
  by (induction tbl arbitrary: r) (auto simp: rename_field_extra)

lemma rename_fields_other:
  "f \<notin> set (map fst FIELD_NAME_CHANGE) \<Longrightarrow> f \<notin> set (map snd FIELD_NAME_CHANGE)
   \<Longrightarrow> map_of (cells (rename_fields r)) f = map_of (cells r) f"
  unfolding rename_fields_def by (rule fold_rename_other)

lemma rename_fields_extra: "extra (rename_fields r) = extra r"
  unfolding rename_fields_def by (rule fold_rename_extra)

lemma rename_keeps_account_number:
  "map_of (cells (rename_fields r)) ''Account Number'' = map_of (cells r) ''Account Number''"
  by (rule rename_fields_other) (simp_all add: FIELD_NAME_CHANGE_def)

lemma source_row_no_placeholder:
  "set (map fst (cells r)) \<subseteq> insert ''Account Number'' SOURCE_HEADERS
   \<Longrightarrow> map_of (cells r) ''SOURCE_FIELD_NAME'' = None"
  unfolding SOURCE_HEADERS_def by (auto simp: map_of_eq_None_iff)

lemma billing_is_source_plus:
  "BILLING_HEADERS = insert ''Account Number'' SOURCE_HEADERS"
  unfolding BILLING_HEADERS_def SOURCE_HEADERS_def by auto

section \<open>The two branches of the account-number step\<close>

lemma resolve_account_present:
  assumes "map_of (cells r) ACCOUNT_KEY = Some key" "map_of m key = Some ent"
    "map_of (cells ent) ''Account Number'' = Some a"
  shows "resolve_account mh r m w = (Inr (setitem r ''Account Number'' a, m), w)"
proof -
  have "key \<in> set (map fst m)"
    using assms(2) by (metis map_of_eq_None_iff option.distinct(1) set_map)
  then show ?thesis using assms
    by (simp add: resolve_account_def getitem_def copy_account_def)
qed

lemma add_account_eq:
  assumes mh: "iteration_of MAPPING_HEADERS mh"
    and key: "map_of (cells r) ''Customer ID'' = Some key"
    and absent: "key \<notin> set (map fst m)"
    and name: "map_of (cells r) ''Company Name'' = Some name"
    and ans: "answers w = a # rest"
    and ok: "\<And>e. e \<in> set (map snd m) \<Longrightarrow> mapping_row_ok e"
  shows "add_account mh r m w =
    (Inr (setitem r ''Account Number'' (Some a), m @ [(key, mapping_entry key name a)]),
     w\<lparr>prompts := prompts w @ [prompt_text key name], answers := rest,
       files := (files w)(DEFAULT_MAPPING_CSV_FILENAME \<mapsto>
                  csv_text mh (map snd m @ [mapping_entry key name a]))\<rparr>)"
  (is "_ = ?rhs")
proof -
  let ?ent = "mapping_entry key name a"
  let ?r1 = "setitem r ''Account Number'' (Some a)"
  have set_mh: "set mh = MAPPING_HEADERS" using mh by (simp add: iteration_of_def)
  have g1: "map_of (cells ?r1) ''Customer ID'' = Some key"
    using key by (simp add: map_of_setitem)
  have g2: "map_of (cells ?r1) ''Company Name'' = Some name"
    using name by (simp add: map_of_setitem)
  have g3: "map_of (cells ?r1) ''Account Number'' = Some (Some a)"
    by (simp add: map_of_setitem)
  have ne: "new_entry ?r1 = Inr ?ent"
    using g1 g2 g3 by (simp add: new_entry_def getitem_def mapping_entry_def)
  have wr: "\<And>e. e \<in> set (map snd m @ [?ent])
              \<Longrightarrow> extra e = None \<and> set (map fst (cells e)) \<subseteq> set mh"
    using ok by (auto simp: mapping_row_ok_def set_mh MAPPING_HEADERS_def mapping_entry_def)
  have "add_account mh r m w =
      (case write_csv DEFAULT_MAPPING_CSV_FILENAME mh (map snd m @ [?ent])
              (w\<lparr>prompts := prompts w @ [prompt_text key name], answers := rest\<rparr>) of
         (Inl e, w2) \<Rightarrow> (Inl e, w2)
       | (Inr ok, w2) \<Rightarrow> (Inr (?r1, m @ [(key, ?ent)]), w2))"
    using key name ans ne g1
    by (simp add: add_account_def getitem_def prompt_user_for_account_def Let_def
        ACCOUNT_KEY_def update_absent[OF absent])
  also have "\<dots> = ?rhs"
    by (simp only: write_csv_ok[OF wr]) simp
  finally show ?thesis .
qed

lemma resolve_account_absent:
  assumes mh: "iteration_of MAPPING_HEADERS mh"
    and key: "map_of (cells r) ACCOUNT_KEY = Some key"
    and absent: "key \<notin> set (map fst m)"
    and name: "map_of (cells r) ''Company Name'' = Some name"
    and ans: "answers w = a # rest"
    and ok: "list_all mapping_row_ok (map snd m)"
  shows "resolve_account mh r m w =
    (Inr (setitem r ''Account Number'' (Some a), m @ [(key, mapping_entry key name a)]),
     w\<lparr>prompts := prompts w @ [prompt_text key name], answers := rest,
       files := (files w)(DEFAULT_MAPPING_CSV_FILENAME \<mapsto>
                  csv_text mh (map snd (m @ [(key, mapping_entry key name a)])))\<rparr>)"
proof -
  have k: "map_of (cells r) ''Customer ID'' = Some key" using key by (simp add: ACCOUNT_KEY_def)
  have ok': "\<And>e. e \<in> set (map snd m) \<Longrightarrow> mapping_row_ok e"
    using ok by (auto simp: list_all_iff)
  have "resolve_account mh r m w = add_account mh r m w"
    using key absent by (simp add: resolve_account_def getitem_def)
  then show ?thesis
    using add_account_eq[OF mh k absent name ans ok'] by simp
qed

lemma convert_row_absent:
  assumes mh: "iteration_of MAPPING_HEADERS mh"
    and key: "map_of (cells r) ACCOUNT_KEY = Some key"
    and absent: "key \<notin> set (map fst m)"
    and name: "map_of (cells r) ''Company Name'' = Some name"
    and ans: "answers w = a # rest"
    and ok: "list_all mapping_row_ok (map snd m)"
  shows "convert_row mh r m w =
    (Inr (rename_fields (setitem r ''Account Number'' (Some a)),
          m @ [(key, mapping_entry key name a)]),
     w\<lparr>prompts := prompts w @ [prompt_text key name], answers := rest,
       files := (files w)(DEFAULT_MAPPING_CSV_FILENAME \<mapsto>
                  csv_text mh (map snd (m @ [(key, mapping_entry key name a)])))\<rparr>)"
  by (simp only: convert_row_def resolve_account_absent[OF assms]) simp

text \<open>The rewrite of the mapping file stops at a first row the writer rejects.\<close>

lemma add_account_rejected:
  assumes key: "map_of (cells r) ''Customer ID'' = Some key"
    and absent: "key \<notin> set (map fst m)"
    and name: "map_of (cells r) ''Company Name'' = Some name"
    and ans: "answers w = a # rest"
    and first: "m = (k0, e0) # m'"
    and bad: "dict_to_list mh e0 = Inl ValueError"
  shows "add_account mh r m w =
    (Inl ValueError,
     w\<lparr>prompts := prompts w @ [prompt_text key name], answers := rest,
       files := (files w)(DEFAULT_MAPPING_CSV_FILENAME \<mapsto> writerow mh)\<rparr>)"
proof -
  let ?ent = "mapping_entry key name a"
  let ?r1 = "setitem r ''Account Number'' (Some a)"
  have g1: "map_of (cells ?r1) ''Customer ID'' = Some key"
    using key by (simp add: map_of_setitem)
  have g2: "map_of (cells ?r1) ''Company Name'' = Some name"
    using name by (simp add: map_of_setitem)
  have g3: "map_of (cells ?r1) ''Account Number'' = Some (Some a)"
    by (simp add: map_of_setitem)
  have ne: "new_entry ?r1 = Inr ?ent"
    using g1 g2 g3 by (simp add: new_entry_def getitem_def mapping_entry_def)
  have "add_account mh r m w =
      (case write_csv DEFAULT_MAPPING_CSV_FILENAME mh (map snd m @ [?ent])
              (w\<lparr>prompts := prompts w @ [prompt_text key name], answers := rest\<rparr>) of
         (Inl e, w2) \<Rightarrow> (Inl e, w2)
       | (Inr ok, w2) \<Rightarrow> (Inr (?r1, m @ [(key, ?ent)]), w2))"
    using key name ans ne g1
    by (simp add: add_account_def getitem_def prompt_user_for_account_def Let_def
        ACCOUNT_KEY_def update_absent[OF absent])
  also have "\<dots> = (Inl ValueError,
     w\<lparr>prompts := prompts w @ [prompt_text key name], answers := rest,
       files := (files w)(DEFAULT_MAPPING_CSV_FILENAME \<mapsto> writerow mh)\<rparr>)"
    by (simp add: write_csv_def first bad)
  finally show ?thesis .
qed

lemma convert_row_rejected:
  assumes key: "map_of (cells r) ACCOUNT_KEY = Some key"
    and absent: "key \<notin> set (map fst m)"
    and name: "map_of (cells r) ''Company Name'' = Some name"
    and ans: "answers w = a # rest"
    and first: "m = (k0, e0) # m'"
    and bad: "dict_to_list mh e0 = Inl ValueError"
  shows "convert_row mh r m w =
    (Inl ValueError,
     w\<lparr>prompts := prompts w @ [prompt_text key name], answers := rest,
       files := (files w)(DEFAULT_MAPPING_CSV_FILENAME \<mapsto> writerow mh)\<rparr>)"
proof -
  have k: "map_of (cells r) ''Customer ID'' = Some key" using key by (simp add: ACCOUNT_KEY_def)
  have "resolve_account mh r m w = add_account mh r m w"
    using key absent by (simp add: resolve_account_def getitem_def)
  then show ?thesis
    by (simp add: convert_row_def add_account_rejected[OF k absent name ans first bad])
qed

lemma convert_row_present:
  assumes "map_of (cells r) ACCOUNT_KEY = Some key" "map_of m key = Some ent"
    "map_of (cells ent) ''Account Number'' = Some a"
  shows "convert_row mh r m w = (Inr (rename_fields (setitem r ''Account Number'' a), m), w)"
  by (simp add: convert_row_def resolve_account_present[OF assms])

text \<open>What the account-number step does to a row, whichever branch it takes.\<close>

lemma resolve_account_row:
  assumes "resolve_account mh r m w = (Inr (r1, m1), w1)"
  shows "\<exists>a. r1 = setitem r ''Account Number'' a"
  using assms
  by (auto simp: resolve_account_def add_account_def copy_account_def Let_def
      split: sum.splits if_splits prod.splits)

lemma convert_row_row:
  assumes "convert_row mh r m w = (Inr (r1, m1), w1)"
  shows "\<exists>a. r1 = rename_fields (setitem r ''Account Number'' a)"
proof -
  from assms obtain r0 where
    "resolve_account mh r m w = (Inr (r0, m1), w1)" "r1 = rename_fields r0"
    by (auto simp: convert_row_def split: prod.splits sum.splits)
  with resolve_account_row show ?thesis by blast
qed

lemma convert_formats_Cons:
  assumes "convert_formats mh (r # rs) m w = (Inr (out, m2), w2)"
  obtains r1 rs1 m1 w1 where "convert_row mh r m w = (Inr (r1, m1), w1)"
    "convert_formats mh rs m1 w1 = (Inr (rs1, m2), w2)" "out = r1 # rs1"
  using assms by (auto split: prod.splits sum.splits)

lemma convert_formats_rel:
  assumes "convert_formats mh rs m w = (Inr (out, m2), w2)"
  shows "list_all2 (\<lambda>r r1. \<exists>a. r1 = rename_fields (setitem r ''Account Number'' a)) rs out"
  using assms
proof (induction rs arbitrary: m w out)
  case Nil
  then show ?case by simp
next
  case (Cons r rs)
  from Cons.prems obtain r1 rs1 m1 w1 where
    a: "convert_row mh r m w = (Inr (r1, m1), w1)"
    and b: "convert_formats mh rs m1 w1 = (Inr (rs1, m2), w2)" and c: "out = r1 # rs1"
    by (rule convert_formats_Cons)
  show ?case using convert_row_row[OF a] Cons.IH[OF b] c by simp
qed

section \<open>The example inputs\<close>

lemma example_mh_iteration: "iteration_of MAPPING_HEADERS example_mh"
  by (auto simp: iteration_of_def MAPPING_HEADERS_def example_mh_def)

lemma example_bh_iteration: "iteration_of BILLING_HEADERS example_bh"
  by (auto simp: iteration_of_def BILLING_HEADERS_def example_bh_def)

lemma example_mapping_ok: "list_all mapping_row_ok (map snd example_mapping)"
  by (simp add: example_mapping_def mapping_row_ok_def mapping_entry_def MAPPING_HEADERS_def)

lemma example_row_key: "map_of (cells example_row) ACCOUNT_KEY = Some (Some ''C1'')"
  by (simp add: example_row_def ACCOUNT_KEY_def)

lemma example_row_name: "map_of (cells example_row) ''Company Name'' = Some (Some ''Acme'')"
  by (simp add: example_row_def)

lemma example_row_keys: "set (map fst (cells example_row)) = SOURCE_HEADERS"
  by (auto simp: example_row_def SOURCE_HEADERS_def)

lemma example_row_unknown: "Some ''C1'' \<notin> set (map fst example_mapping)"
  by (simp add: example_mapping_def)

lemma known_mapping_entry:
  "map_of known_mapping (Some ''C1'') = Some (mapping_entry (Some ''C1'') (Some ''Acme'') ''ACC-1'')"
  by (simp add: known_mapping_def)

lemma known_entry_number:
  "map_of (cells (mapping_entry (Some ''C1'') (Some ''Acme'') ''ACC-1'')) ''Account Number''
     = Some (Some ''ACC-1'')"
  by (simp add: mapping_entry_def)

lemma example_rename: "rename_fields (setitem example_row ''Account Number'' a)
     = setitem example_row ''Account Number'' a"
  by (rule rename_fields_noop) (simp add: map_of_setitem example_row_def)

lemma example_run:
  "convert_formats example_mh [example_row] known_mapping example_world
     = (Inr ([setitem example_row ''Account Number'' (Some ''ACC-1'')], known_mapping),
        example_world)"
  by (simp add: convert_row_present[OF example_row_key known_mapping_entry known_entry_number]
      example_rename)

lemma header_line:
  \<open>writerow example_mh = ''"Customer ID","Company Name","Account Number"'' @ [CHR 0x0D, CHR 0x0A]\<close>
  by (simp add: writerow_def quote_cell_def example_mh_def DQUOTE_def COMMA_def CR_def LF_def)

lemma example_prompt:
  "prompt_text (Some ''C1'') (Some ''Acme'')
     = ''Please enter the account number for '' @ [CHR 0x27] @ ''Acme'' @ [CHR 0x27]
         @ '' aka ID C1: ''"
  by (simp add: prompt_text_def py_str_def)

lemma example_table_text:
  \<open>csv_text example_mh (map snd (example_mapping
       @ [(Some ''C1'', mapping_entry (Some ''C1'') (Some ''Acme'') a)]))
   = ''"Customer ID","Company Name","Account Number"'' @ [CHR 0x0D, CHR 0x0A]
     @ ''"C0","Zenith","ACC-0"'' @ [CHR 0x0D, CHR 0x0A]
     @ ''"C1","Acme",'' @ quote_cell a @ [CHR 0x0D, CHR 0x0A]\<close>
  by (simp add: csv_text_def writerow_def quote_cell_def DQUOTE_def COMMA_def CR_def LF_def
      example_mh_def example_mapping_def mapping_entry_def row_values_def)

lemma example_table_rows:
  "example_mh # map (row_values example_mh) (map snd (example_mapping
       @ [(Some ''C1'', mapping_entry (Some ''C1'') (Some ''Acme'') a)]))
   = [[''Customer ID'', ''Company Name'', ''Account Number''],
      [''C0'', ''Zenith'', ''ACC-0''], [''C1'', ''Acme'', a]]"
  by (simp add: example_mh_def example_mapping_def mapping_entry_def row_values_def)

lemma example_table_storable:
  "storable a \<Longrightarrow>
   list_all (\<lambda>e. list_all storable (row_values example_mh e)) (map snd (example_mapping
       @ [(Some ''C1'', mapping_entry (Some ''C1'') (Some ''Acme'') a)]))"
  by (simp add: example_mh_def example_mapping_def mapping_entry_def row_values_def
      storable_def CR_def FIELD_LIMIT_def)

lemma example_table:
  "example_mapping @ [(Some ''C1'', mapping_entry (Some ''C1'') (Some ''Acme'') a)]
   = [(Some ''C0'', \<lparr>cells = [(''Customer ID'', Some ''C0''), (''Company Name'', Some ''Zenith''),
                              (''Account Number'', Some ''ACC-0'')], extra = None\<rparr>),
      (Some ''C1'', \<lparr>cells = [(''Customer ID'', Some ''C1''), (''Company Name'', Some ''Acme''),
                              (''Account Number'', Some a)], extra = None\<rparr>)]"
  by (simp add: example_mapping_def mapping_entry_def)

lemma example_enriched:
  "rename_fields (setitem example_row ''Account Number'' (Some a))
   = \<lparr>cells = [(''No'', Some ''1''), (''Customer ID'', Some ''C1''),
      (''Company Name'', Some ''Acme''), (''Flat Charge'', Some ''10''),
      (''Current Volume'', Some ''5''), (''Current Amount'', Some ''50''),
      (''YTD Volume'', Some ''20''), (''YTD Amount'', Some ''200''),
      (''Account Number'', Some a)], extra = None\<rparr>"
  by (simp add: example_rename) (simp add: setitem_def example_row_def)

section \<open>Facts about the time stamp\<close>

lemma decimal_1: "n < 10 \<Longrightarrow> decimal n = [digit n]"
  by (subst decimal.simps) simp

lemma decimal_step: "10 \<le> n \<Longrightarrow> decimal n = decimal (n div 10) @ [digit (n mod 10)]"
  by (subst decimal.simps) simp

lemma decimal_2: "10 \<le> n \<Longrightarrow> n < 100 \<Longrightarrow> decimal n = [digit (n div 10), digit (n mod 10)]"
proof -
  assume a: "10 \<le> n" "n < 100"
  then have "n div 10 < 10" by arith
  with a show ?thesis by (simp add: decimal_step decimal_1)
qed

lemma decimal_3:
  "100 \<le> n \<Longrightarrow> n < 1000 \<Longrightarrow> decimal n = [digit (n div 100), digit (n div 10 mod 10), digit (n mod 10)]"
proof -
  assume a: "100 \<le> n" "n < 1000"
  then have b: "10 \<le> n div 10" "n div 10 < 100" "10 \<le> n" by arith+
  have c: "n div 10 div 10 = n div 100" by (simp add: div_mult2_eq[symmetric])
  show ?thesis using b by (simp add: decimal_step[of n] decimal_2 c)
qed

lemma decimal_4:
  "1000 \<le> n \<Longrightarrow> n < 10000 \<Longrightarrow>
   decimal n = [digit (n div 1000), digit (n div 100 mod 10), digit (n div 10 mod 10), digit (n mod 10)]"
proof -
  assume a: "1000 \<le> n" "n < 10000"
  then have b: "100 \<le> n div 10" "n div 10 < 1000" "10 \<le> n" by arith+
  have c: "n div 10 div 100 = n div 1000" "n div 10 div 10 = n div 100"
    by (simp_all add: div_mult2_eq[symmetric])
  show ?thesis using b by (simp add: decimal_step[of n] decimal_3 c)
qed

lemma digit_0: "digit 0 = CHR ''0''"
  by (simp add: digit_def)

lemma replicate_one: "replicate (Suc 0) x = [x]"
  by simp

lemma zero_pad_2:
  assumes "n < 100"
  shows "zero_pad 2 n = [digit (n div 10), digit (n mod 10)]"
proof (cases "n < 10")
  case True
  then have "decimal n = [digit n]" by (rule decimal_1)
  then have "zero_pad 2 n = [CHR ''0'', digit n]" by (simp add: zero_pad_def)
  with True show ?thesis by (simp add: digit_0)
next
  case False
  with assms have "decimal n = [digit (n div 10), digit (n mod 10)]" by (simp add: decimal_2)
  then show ?thesis by (simp add: zero_pad_def)
qed

lemma zero_pad_4:
  assumes "1000 \<le> n" "n < 10000"
  shows "zero_pad 4 n
       = [digit (n div 1000), digit (n div 100 mod 10), digit (n div 10 mod 10), digit (n mod 10)]"
proof -
  from assms have "decimal n
       = [digit (n div 1000), digit (n div 100 mod 10), digit (n div 10 mod 10), digit (n mod 10)]"
    by (rule decimal_4)
  then show ?thesis by (simp add: zero_pad_def)
qed

lemma strftime_digits:
  assumes "clock_reading t"
  shows "strftime t =
     [digit (year t div 1000), digit (year t div 100 mod 10), digit (year t div 10 mod 10),
      digit (year t mod 10),
      digit (month t div 10), digit (month t mod 10),
      digit (day t div 10), digit (day t mod 10), CHR ''_'',
      digit (hour t div 10), digit (hour t mod 10),
      digit (minute t div 10), digit (minute t mod 10)]"
proof -
  from assms have y: "1000 \<le> year t" "year t < 10000"
    and m: "month t < 100" and d: "day t < 100" and h: "hour t < 100" and mi: "minute t < 100"
    by (simp_all add: clock_reading_def)
  show ?thesis
    unfolding strftime_def zero_pad_4[OF y] zero_pad_2[OF m] zero_pad_2[OF d]
      zero_pad_2[OF h] zero_pad_2[OF mi]
    by simp
qed

section \<open>Reading back what the writer wrote\<close>

lemma split_lines_Nil_iff: "split_lines t = [] \<longleftrightarrow> t = []"
  by (cases t) (auto split: list.splits)

lemma read_records_step:
  "read_records rd ((c # l) # ls) =
     (case parse_process_char rd (Some c) of
        Inl e \<Rightarrow> ([], Some e)
      | Inr rd1 \<Rightarrow> read_records rd1 (l # ls))"
  by (simp split: sum.splits)

lemma read_records_feed:
  "t = [] \<or> last t = LF \<Longrightarrow> read_records rd (split_lines t) = feed rd t"
proof (induction t arbitrary: rd)
  case Nil
  then show ?case by simp
next
  case (Cons c cs)
  have tail: "cs = [] \<or> last cs = LF" using Cons.prems by (auto split: if_splits)
  show ?case
  proof (cases "c = LF")
    case True
    then show ?thesis using Cons.IH[OF tail]
      by (simp split: sum.splits)
  next
    case False
    with Cons.prems have "cs \<noteq> []" by auto
    then obtain l ls where sl: "split_lines cs = l # ls"
      by (cases "split_lines cs") (auto simp: split_lines_Nil_iff)
    have "read_records rd (split_lines (c # cs)) = read_records rd ((c # l) # ls)"
      using False sl by simp
    also have "\<dots> = (case parse_process_char rd (Some c) of
        Inl e \<Rightarrow> ([], Some e) | Inr rd1 \<Rightarrow> read_records rd1 (split_lines cs))"
      by (simp only: read_records_step sl)
    also have "\<dots> = feed rd (c # cs)"
      using False Cons.IH[OF tail] by (simp split: sum.splits)
    finally show ?thesis .
  qed
qed

lemma feed_quoted_tail:
  assumes "length f + length v \<le> FIELD_LIMIT"
  shows "feed \<lparr>state = IN_QUOTED_FIELD, rec_fields = fs, field = f\<rparr>
              (escape_quotes v @ DQUOTE # rest)
       = feed \<lparr>state = QUOTE_IN_QUOTED_FIELD, rec_fields = fs, field = f @ v\<rparr> rest"
  using assms
proof (induction v arbitrary: f)
  case Nil
  then show ?case
    by (simp add: parse_process_char_def DQUOTE_def LF_def)
next
  case (Cons c v)
  have l: "length (f @ [c]) + length v \<le> FIELD_LIMIT" using Cons.prems by simp
  have "feed \<lparr>state = IN_QUOTED_FIELD, rec_fields = fs, field = f\<rparr>
             (escape_quotes (c # v) @ DQUOTE # rest)
      = feed \<lparr>state = IN_QUOTED_FIELD, rec_fields = fs, field = f @ [c]\<rparr>
             (escape_quotes v @ DQUOTE # rest)"
    using Cons.prems
    by (cases "c = DQUOTE")
       (auto simp: parse_process_char_def parse_add_char_def DQUOTE_def LF_def)
  then show ?case using Cons.IH[OF l] by simp
qed

lemma feed_quote_cell:
  assumes "s = START_FIELD \<or> s = START_RECORD" "length v \<le> FIELD_LIMIT"
  shows "feed \<lparr>state = s, rec_fields = fs, field = []\<rparr> (quote_cell v @ rest)
       = feed \<lparr>state = QUOTE_IN_QUOTED_FIELD, rec_fields = fs, field = v\<rparr> rest"
proof -
  have "feed \<lparr>state = s, rec_fields = fs, field = []\<rparr> (quote_cell v @ rest)
      = feed \<lparr>state = IN_QUOTED_FIELD, rec_fields = fs, field = []\<rparr>
             (escape_quotes v @ DQUOTE # rest)"
    using assms(1)
    by (auto simp: quote_cell_def parse_process_char_def start_field_def end_of_line_def
        DQUOTE_def LF_def CR_def COMMA_def)
  also have "\<dots> = feed \<lparr>state = QUOTE_IN_QUOTED_FIELD, rec_fields = fs, field = [] @ v\<rparr> rest"
    by (rule feed_quoted_tail) (use assms in simp)
  finally show ?thesis by simp
qed

lemma feed_row:
  assumes "s = START_FIELD \<or> (s = START_RECORD \<and> fs = [])"
    "\<forall>x \<in> set (v # vs). length x \<le> FIELD_LIMIT"
  shows "feed \<lparr>state = s, rec_fields = fs, field = []\<rparr>
              (join_cells (map quote_cell (v # vs)) @ LF # rest)
       = (case feed parse_reset rest of (rs, e) \<Rightarrow> ((fs @ v # vs) # rs, e))"
  using assms
proof (induction vs arbitrary: s fs v)
  case Nil
  have "feed \<lparr>state = s, rec_fields = fs, field = []\<rparr> (quote_cell v @ LF # rest)
      = feed \<lparr>state = QUOTE_IN_QUOTED_FIELD, rec_fields = fs, field = v\<rparr> (LF # rest)"
    by (rule feed_quote_cell) (use Nil in auto)
  then show ?case
    by (simp add: parse_process_char_def end_of_line_def after_line_end_def parse_save_field_def
        DQUOTE_def COMMA_def LF_def)
next
  case (Cons u vs)
  have "feed \<lparr>state = s, rec_fields = fs, field = []\<rparr>
             (join_cells (map quote_cell (v # u # vs)) @ LF # rest)
      = feed \<lparr>state = s, rec_fields = fs, field = []\<rparr>
             (quote_cell v @ COMMA # join_cells (map quote_cell (u # vs)) @ LF # rest)"
    by simp
  also have "\<dots> = feed \<lparr>state = QUOTE_IN_QUOTED_FIELD, rec_fields = fs, field = v\<rparr>
                      (COMMA # join_cells (map quote_cell (u # vs)) @ LF # rest)"
    by (rule feed_quote_cell) (use Cons.prems in auto)
  also have "\<dots> = feed \<lparr>state = START_FIELD, rec_fields = fs @ [v], field = []\<rparr>
                      (join_cells (map quote_cell (u # vs)) @ LF # rest)"
    by (simp add: parse_process_char_def parse_save_field_def DQUOTE_def COMMA_def LF_def)
  also have "\<dots> = (case feed parse_reset rest of
                      (rs, e) \<Rightarrow> (((fs @ [v]) @ u # vs) # rs, e))"
    by (rule Cons.IH) (use Cons.prems in auto)
  finally show ?case by simp
qed

lemma feed_rows:
  assumes "\<forall>vs \<in> set rs. vs \<noteq> [] \<and> (\<forall>x \<in> set vs. length x \<le> FIELD_LIMIT)"
  shows "feed parse_reset (concat (map text_line rs)) = (rs, None)"
  using assms
proof (induction rs)
  case Nil
  then show ?case by (simp add: parse_reset_def)
next
  case (Cons vs rs)
  from Cons.prems have "vs \<noteq> []" by simp
  then obtain v vs' where vs: "vs = v # vs'" by (cases vs) auto
  have lim: "\<forall>x \<in> set (v # vs'). length x \<le> FIELD_LIMIT" using Cons.prems vs by simp
  have "feed \<lparr>state = START_RECORD, rec_fields = [], field = []\<rparr>
             (join_cells (map quote_cell (v # vs')) @ LF # concat (map text_line rs))
      = (case feed parse_reset (concat (map text_line rs)) of
           (rs', e) \<Rightarrow> (([] @ v # vs') # rs', e))"
    by (rule feed_row) (use lim in auto)
  moreover have "feed parse_reset (concat (map text_line rs)) = (rs, None)"
    using Cons by simp
  moreover have "text_line (v # vs') = join_cells (map quote_cell (v # vs')) @ [LF]"
    by (simp add: text_line_def)
  ultimately show ?case by (simp add: parse_reset_def vs)
qed

lemma universal_newlines_keep:
  "c \<noteq> CR \<Longrightarrow> universal_newlines (c # cs) = c # universal_newlines cs"
  by (cases cs) simp_all

lemma universal_newlines_crlf:
  "CR \<notin> set a \<Longrightarrow> universal_newlines (a @ CR # LF # b) = a @ LF # universal_newlines b"
  by (induction a) (auto simp: universal_newlines_keep)

lemma set_escape_quotes: "set (escape_quotes v) \<subseteq> insert DQUOTE (set v)"
  by (induction v) auto

lemma set_join_cells: "set (join_cells cs) \<subseteq> insert COMMA (\<Union> (set ` set cs))"
  by (induction cs rule: join_cells.induct) auto

lemma no_cr_line:
  assumes "\<forall>x \<in> set vs. CR \<notin> set x"
  shows "CR \<notin> set (join_cells (map quote_cell vs))"
proof -
  have "CR \<notin> set (quote_cell x)" if "x \<in> set vs" for x
    using that assms set_escape_quotes[of x]
    by (auto simp: quote_cell_def CR_def DQUOTE_def)
  then show ?thesis using set_join_cells[of "map quote_cell vs"]
    by (auto simp: CR_def COMMA_def)
qed

lemma universal_newlines_rows:
  assumes "\<forall>vs \<in> set rs. \<forall>x \<in> set vs. CR \<notin> set x"
  shows "universal_newlines (concat (map writerow rs)) = concat (map text_line rs)"
  using assms
proof (induction rs)
  case Nil
  then show ?case by simp
next
  case (Cons vs rs)
  have "CR \<notin> set (join_cells (map quote_cell vs))"
    by (rule no_cr_line) (use Cons.prems in simp)
  then show ?case using Cons
    by (simp add: writerow_def text_line_def universal_newlines_crlf)
qed

lemma decode_written: "decode_utf8_sig (concat (map writerow rs)) = concat (map writerow rs)"
proof (cases rs)
  case Nil
  then show ?thesis by (simp add: decode_utf8_sig_def BOM_def)
next
  case (Cons vs rs')
  have "writerow vs = CR # LF # [] \<or> (\<exists>t. writerow vs = DQUOTE # t)"
    by (cases vs rule: join_cells.cases) (auto simp: writerow_def quote_cell_def)
  then show ?thesis using Cons
    by (auto simp: decode_utf8_sig_def BOM_def CR_def DQUOTE_def)
qed

lemma last_text_lines: "concat (map text_line rs) = [] \<or> last (concat (map text_line rs)) = LF"
  by (induction rs rule: rev_induct) (auto simp: text_line_def)

lemma read_back:
  assumes "\<forall>vs \<in> set rs. vs \<noteq> [] \<and> (\<forall>x \<in> set vs. CR \<notin> set x \<and> length x \<le> FIELD_LIMIT)"
  shows "csv_reader (split_lines (universal_newlines (decode_utf8_sig (concat (map writerow rs)))))
       = (rs, None)"
proof -
  have 1: "universal_newlines (concat (map writerow rs)) = concat (map text_line rs)"
    by (rule universal_newlines_rows) (use assms in auto)
  have 2: "feed parse_reset (concat (map text_line rs)) = (rs, None)"
    by (rule feed_rows) (use assms in auto)
  show ?thesis
    unfolding csv_reader_def decode_written 1
    using read_records_feed[OF last_text_lines, of parse_reset rs] 2 by simp
qed

section \<open>Rows of the \<open>DictReader\<close> and the keyed load\<close>

lemma py_dict_fold_keys:
  "fst ` set (fold (\<lambda>kv d. AList.update (fst kv) (snd kv) d) kvs acc)
     = fst ` set kvs \<union> fst ` set acc"
  by (induction kvs arbitrary: acc) (auto simp: dom_update)

lemma py_dict_keys: "fst ` set (py_dict kvs) = fst ` set kvs"
  by (simp add: py_dict_def py_dict_fold_keys)

lemma fold_update_none_keys:
  "fst ` set (fold (\<lambda>k d. AList.update k v d) ks acc) = set ks \<union> fst ` set acc"
  by (induction ks arbitrary: acc) (auto simp: dom_update)

lemma zip_keys: "fst ` set (zip hs ys) = set (take (length ys) hs)"
proof -
  have "fst ` set (zip hs ys) = set (map fst (zip hs ys))" by simp
  also have "\<dots> = set (take (min (length hs) (length ys)) hs)"
    by (simp only: map_fst_zip_take)
  also have "\<dots> = set (take (length ys) hs)"
    by (cases "length hs \<le> length ys") (simp_all add: min_def)
  finally show ?thesis .
qed

lemma dict_row_keys: "fst ` set (cells (dict_row hs r)) = set hs"
proof (cases "length hs < length r")
  case True
  then show ?thesis by (simp add: dict_row_def py_dict_keys Let_def zip_keys)
next
  case False
  have "set (take (length r) hs) \<union> set (drop (length r) hs) = set hs"
    by (simp flip: set_append)
  then show ?thesis using False
    by (auto simp: dict_row_def py_dict_keys Let_def fold_update_none_keys zip_keys)
qed

lemma fold_update_distinct:
  "distinct (map fst kvs) \<Longrightarrow> fst ` set kvs \<inter> fst ` set acc = {}
   \<Longrightarrow> fold (\<lambda>kv d. AList.update (fst kv) (snd kv) d) kvs acc = acc @ kvs"
proof (induction kvs arbitrary: acc)
  case Nil
  then show ?case by simp
next
  case (Cons kv kvs)
  have a: "fst kv \<notin> set (map fst acc)" using Cons.prems by auto
  have u: "AList.update (fst kv) (snd kv) acc = acc @ [kv]"
    using update_absent[OF a] by simp
  have "fold (\<lambda>kv d. AList.update (fst kv) (snd kv) d) kvs (acc @ [kv]) = (acc @ [kv]) @ kvs"
    by (rule Cons.IH) (use Cons.prems in auto)
  then show ?case using u by simp
qed

lemma py_dict_distinct: "distinct (map fst kvs) \<Longrightarrow> py_dict kvs = kvs"
  using fold_update_distinct[of kvs "[]"] by (simp add: py_dict_def)

lemma dict_row_exact:
  assumes "distinct hs" "length vs = length hs"
  shows "dict_row hs vs = \<lparr>cells = zip hs (map Some vs), extra = None\<rparr>"
proof -
  have "distinct (map fst (zip hs (map Some vs)))"
    using assms by simp
  then show ?thesis using assms
    by (simp add: dict_row_def Let_def py_dict_distinct)
qed

lemma load_dict_total:
  assumes "\<forall>r \<in> set rows. account_key_of r \<noteq> None"
  shows "\<exists>d'. load_dict rows d = Inr d'
          \<and> (distinct (map fst d) \<longrightarrow> distinct (map fst d'))
          \<and> (\<forall>k. map_of d' k = (case last_with_key k rows of
                                   None \<Rightarrow> map_of d k | Some r \<Rightarrow> Some r))"
  using assms
proof (induction rows arbitrary: d)
  case Nil
  then show ?case by (simp add: last_with_key_def)
next
  case (Cons r rows)
  from Cons.prems obtain k where k: "map_of (cells r) ACCOUNT_KEY = Some k"
    by (auto simp: account_key_of_def)
  have rest: "\<forall>r \<in> set rows. account_key_of r \<noteq> None" using Cons.prems by simp
  from Cons.IH[OF rest, of "AList.update k r d"] obtain d' where
    d': "load_dict rows (AList.update k r d) = Inr d'"
    and dist: "distinct (map fst (AList.update k r d)) \<longrightarrow> distinct (map fst d')"
    and look: "\<forall>k'. map_of d' k' = (case last_with_key k' rows of
                 None \<Rightarrow> map_of (AList.update k r d) k' | Some r' \<Rightarrow> Some r')"
    by blast
  have 1: "load_dict (r # rows) d = Inr d'" using k d' by (simp add: getitem_def)
  have 2: "distinct (map fst d) \<longrightarrow> distinct (map fst d')"
    using dist by (simp add: distinct_update)
  have 3: "map_of d' k' = (case last_with_key k' (r # rows) of
                 None \<Rightarrow> map_of d k' | Some r' \<Rightarrow> Some r')" for k'
    using look[rule_format, of k'] k
    by (auto simp: last_with_key_def account_key_of_def update_conv' split: list.splits)
  from 1 2 3 show ?case by blast
qed

lemma filter_unique:
  "distinct (map g xs) \<Longrightarrow> x \<in> set xs \<Longrightarrow> filter (\<lambda>y. g y = g x) xs = [x]"
proof (induction xs)
  case Nil
  then show ?case by simp
next
  case (Cons a xs)
  show ?case
  proof (cases "a = x")
    case True
    have "filter (\<lambda>y. g y = g x) xs = []"
      using Cons.prems(1) True by (force simp: filter_empty_conv image_iff)
    with True show ?thesis by simp
  next
    case False
    with Cons.prems have "x \<in> set xs" by simp
    moreover have "g a \<noteq> g x" using Cons.prems(1) \<open>x \<in> set xs\<close> by auto
    ultimately show ?thesis using Cons by simp
  qed
qed

lemma load_csv_dict:
  assumes "files w filename = Some txt"
    and "csv_reader (split_lines (universal_newlines (decode_utf8_sig txt))) = (header # recs, None)"
    and "ACCOUNT_KEY \<in> set header"
  shows "\<exists>d. load_csv filename headers True w = Inr (RowDict d)
        \<and> distinct (map fst d)
        \<and> (\<forall>k. map_of d k = last_with_key k (dict_reader (header # recs)))"
proof -
  let ?rows = "dict_reader (header # recs)"
  have keyed: "\<forall>r \<in> set ?rows. account_key_of r \<noteq> None"
  proof
    fix r assume "r \<in> set ?rows"
    then obtain vs where "r = dict_row header vs" by (auto simp: dict_reader_def)
    then have "ACCOUNT_KEY \<in> fst ` set (cells r)" using assms(3) by (simp add: dict_row_keys)
    then show "account_key_of r \<noteq> None"
      by (simp add: account_key_of_def map_of_eq_None_iff)
  qed
  from load_dict_total[OF keyed, of "[]"] obtain d where
    d: "load_dict ?rows [] = Inr d" and dist: "distinct (map fst d)"
    and look: "\<forall>k. map_of d k = (case last_with_key k ?rows of
                                   None \<Rightarrow> map_of [] k | Some r \<Rightarrow> Some r)"
    by auto
  have "load_csv filename headers True w = Inr (RowDict d)"
    using assms(1,2) d by (simp add: load_csv_def)
  moreover have "map_of d k = last_with_key k ?rows" for k
    using look[rule_format, of k] by (simp split: option.splits)
  ultimately show ?thesis using dist by blast
qed

lemma header_storable:
  assumes "iteration_of MAPPING_HEADERS mh"
  shows "mh \<noteq> [] \<and> (\<forall>x \<in> set mh. storable x)"
proof -
  have s: "set mh = MAPPING_HEADERS" using assms by (simp add: iteration_of_def)
  have "''Customer ID'' \<in> MAPPING_HEADERS" by (simp add: MAPPING_HEADERS_def)
  then have "''Customer ID'' \<in> set mh" by (simp only: s)
  then have ne: "mh \<noteq> []" by auto
  have "storable x" if "x \<in> set mh" for x
  proof -
    from that have "x \<in> MAPPING_HEADERS" by (simp only: s)
    then have "x = ''Customer ID'' \<or> x = ''Company Name'' \<or> x = ''Account Number''"
      by (simp add: MAPPING_HEADERS_def)
    then show ?thesis
      by (elim disjE) (simp_all add: storable_def CR_def FIELD_LIMIT_def)
  qed
  with ne show ?thesis by blast
qed

lemma entry_values:
  assumes "entry_ok k e" "set mh = MAPPING_HEADERS"
  shows "\<forall>h \<in> set mh. \<exists>s. map_of (cells e) h = Some (Some s) \<and> storable s"
proof
  fix h assume "h \<in> set mh"
  then have "h \<in> fst ` set (cells e)" using assms by (simp add: entry_ok_def)
  then obtain v where v: "map_of (cells e) h = Some v"
    by (cases "map_of (cells e) h") (auto simp: map_of_eq_None_iff)
  then have "(h, v) \<in> set (cells e)" by (rule map_of_SomeD)
  then obtain s where "v = Some s" "storable s"
    using assms(1) by (auto simp: entry_ok_def list_all_iff split: option.splits)
  with v show "\<exists>s. map_of (cells e) h = Some (Some s) \<and> storable s" by blast
qed

lemma row_values_storable:
  assumes "entry_ok k e" "set mh = MAPPING_HEADERS"
  shows "\<forall>x \<in> set (row_values mh e). storable x"
  using entry_values[OF assms] by (auto simp: row_values_def)

lemma reloaded_row:
  assumes "entry_ok k e" "iteration_of MAPPING_HEADERS mh"
  shows "extra (dict_row mh (row_values mh e)) = None"
    and "map_of (cells (dict_row mh (row_values mh e))) h = map_of (cells e) h"
proof -
  have d: "distinct mh" and s: "set mh = MAPPING_HEADERS"
    using assms(2) by (simp_all add: iteration_of_def)
  have ex: "dict_row mh (row_values mh e)
              = \<lparr>cells = zip mh (map Some (row_values mh e)), extra = None\<rparr>"
    by (rule dict_row_exact[OF d]) (simp add: row_values_def)
  have c: "cells (dict_row mh (row_values mh e)) = zip mh (map Some (row_values mh e))"
    by (simp add: ex)
  have z: "map_of (zip mh (map Some (row_values mh e))) h
         = (if h \<in> set mh
            then Some (Some (case map_of (cells e) h of
                               None \<Rightarrow> [] | Some None \<Rightarrow> [] | Some (Some x) \<Rightarrow> x))
            else None)"
    by (simp add: row_values_def map_of_zip_same comp_def)
  show "extra (dict_row mh (row_values mh e)) = None" by (simp add: ex)
  show "map_of (cells (dict_row mh (row_values mh e))) h = map_of (cells e) h"
  proof (cases "h \<in> set mh")
    case True
    with entry_values[OF assms(1) s] obtain x where "map_of (cells e) h = Some (Some x)"
      by blast
    with True show ?thesis unfolding c z by simp
  next
    case False
    then have "h \<notin> fst ` set (cells e)" using assms(1) s by (simp add: entry_ok_def)
    then have "map_of (cells e) h = None" by (simp add: map_of_eq_None_iff)
    with False show ?thesis unfolding c z by simp
  qed
qed

lemma last_with_key_None:
  "last_with_key k rs = None \<longleftrightarrow> (\<forall>r \<in> set rs. account_key_of r \<noteq> Some k)"
proof -
  have "last_with_key k rs = None \<longleftrightarrow> filter (\<lambda>r. account_key_of r = Some k) rs = []"
    by (simp add: last_with_key_def split: list.splits)
  then show ?thesis by (simp add: filter_empty_conv)
qed

lemma last_with_key_unique:
  assumes "distinct (map account_key_of rs)" "e \<in> set rs" "account_key_of e = Some k"
    and same: "\<And>r. r \<in> set rs \<Longrightarrow> account_key_of (c r) = account_key_of r"
  shows "last_with_key k (map c rs) = Some (c e)"
proof -
  have "filter (\<lambda>r. account_key_of r = Some k) (map c rs)
      = map c (filter (\<lambda>r. account_key_of (c r) = Some k) rs)"
    by (simp add: filter_map comp_def)
  also have "filter (\<lambda>r. account_key_of (c r) = Some k) rs
           = filter (\<lambda>r. account_key_of r = account_key_of e) rs"
    using same assms(3) by (intro filter_cong) auto
  also have "\<dots> = [e]" using assms(1,2) by (rule filter_unique)
  finally show ?thesis by (simp add: last_with_key_def)
qed

section \<open>The field size limit\<close>

text \<open>
  The writer has no limit on the length of a cell, the reader has one: a cell longer
  than \<open>FIELD_LIMIT\<close> is written, and reading the file back raises \<open>csv.Error\<close>.
\<close>

lemma feed_long_field:
  assumes "FIELD_LIMIT < length f + length v" "length f \<le> FIELD_LIMIT"
  shows "feed \<lparr>state = IN_QUOTED_FIELD, rec_fields = fs, field = f\<rparr> (escape_quotes v @ rest)
       = ([], Some CsvError)"
  using assms
proof (induction v arbitrary: f)
  case Nil
  then show ?case by simp
next
  case (Cons c v)
  show ?case
  proof (cases "length f < FIELD_LIMIT")
    case True
    have "feed \<lparr>state = IN_QUOTED_FIELD, rec_fields = fs, field = f\<rparr>
               (escape_quotes (c # v) @ rest)
        = feed \<lparr>state = IN_QUOTED_FIELD, rec_fields = fs, field = f @ [c]\<rparr>
               (escape_quotes v @ rest)"
      using True
      by (cases "c = DQUOTE")
         (auto simp: parse_process_char_def parse_add_char_def DQUOTE_def LF_def)
    moreover have "feed \<lparr>state = IN_QUOTED_FIELD, rec_fields = fs, field = f @ [c]\<rparr>
               (escape_quotes v @ rest) = ([], Some CsvError)"
      by (rule Cons.IH) (use True Cons.prems in auto)
    ultimately show ?thesis by simp
  next
    case False
    then show ?thesis
      by (cases "c = DQUOTE")
         (auto simp: parse_process_char_def parse_add_char_def DQUOTE_def LF_def)
  qed
qed

lemma long_cell_rejected:
  assumes "FIELD_LIMIT < length v" "CR \<notin> set v"
  shows "csv_reader (split_lines (universal_newlines (decode_utf8_sig (writerow [v]))))
       = ([], Some CsvError)"
proof -
  have dec: "decode_utf8_sig (writerow [v]) = writerow [v]"
    using decode_written[of "[[v]]"] by simp
  have un: "universal_newlines (writerow [v]) = text_line [v]"
    using universal_newlines_rows[of "[[v]]"] assms(2) by simp
  have "text_line [v] = [] \<or> last (text_line [v]) = LF" by (simp add: text_line_def)
  then have "read_records parse_reset (split_lines (text_line [v])) = feed parse_reset (text_line [v])"
    by (rule read_records_feed)
  also have "feed parse_reset (text_line [v])
      = feed \<lparr>state = IN_QUOTED_FIELD, rec_fields = [], field = []\<rparr>
             (escape_quotes v @ [DQUOTE, LF])"
    by (simp add: text_line_def quote_cell_def parse_reset_def parse_process_char_def
        start_field_def end_of_line_def DQUOTE_def LF_def CR_def COMMA_def)
  also have "\<dots> = ([], Some CsvError)"
    by (rule feed_long_field) (use assms in simp_all)
  finally show ?thesis by (simp add: csv_reader_def dec un)
qed

subsection \<open>Reading a written table back\<close>

lemma csv_text_rows: "csv_text hs rs = concat (map writerow (hs # map (row_values hs) rs))"
  by (simp add: csv_text_def comp_def)

lemma csv_text_read_back:
  assumes mh: "iteration_of MAPPING_HEADERS mh"
    and st: "list_all (\<lambda>e. list_all storable (row_values mh e)) rows"
  shows "csv_reader (split_lines (universal_newlines (decode_utf8_sig (csv_text mh rows))))
       = (mh # map (row_values mh) rows, None)"
proof -
  from header_storable[OF mh] have ne: "mh \<noteq> []" and hs: "\<forall>x \<in> set mh. storable x"
    by simp_all
  have "\<forall>vs \<in> set (mh # map (row_values mh) rows).
          vs \<noteq> [] \<and> (\<forall>x \<in> set vs. CR \<notin> set x \<and> length x \<le> FIELD_LIMIT)"
  proof
    fix vs assume "vs \<in> set (mh # map (row_values mh) rows)"
    then consider "vs = mh" | e where "e \<in> set rows" "vs = row_values mh e" by auto
    then show "vs \<noteq> [] \<and> (\<forall>x \<in> set vs. CR \<notin> set x \<and> length x \<le> FIELD_LIMIT)"
    proof cases
      case 1
      with ne hs show ?thesis by (simp add: storable_def)
    next
      case 2
      from 2(1) st have "list_all storable (row_values mh e)" by (simp add: list_all_iff)
      moreover have "row_values mh e \<noteq> []" using ne by (simp add: row_values_def)
      ultimately show ?thesis using 2(2) by (simp add: list_all_iff storable_def)
    qed
  qed
  then show ?thesis unfolding csv_text_rows by (rule read_back)
qed

section \<open>Runs of the main program with a fully populated mapping table\<close>

lemma convert_row_known:
  assumes "account_key_of r = Some k" "k \<in> set (map fst m)"
  shows "convert_row mh r m w =
     ((case copy_account k r m of Inl e \<Rightarrow> Inl e | Inr r1 \<Rightarrow> Inr (rename_fields r1, m)), w)"
  using assms
  by (simp add: convert_row_def resolve_account_def getitem_def account_key_of_def
      split: sum.splits)

lemma convert_formats_known:
  assumes "all_known m rows"
  shows "\<exists>res. (\<forall>mh w. convert_formats mh rows m w = (res, w))
             \<and> (\<forall>out m2. res = Inr (out, m2) \<longrightarrow> m2 = m)"
  using assms
proof (induction rows)
  case Nil
  then show ?case by simp
next
  case (Cons r rows)
  from Cons.prems obtain k where k: "account_key_of r = Some k" "k \<in> set (map fst m)"
    and rest: "all_known m rows"
    by (auto simp: all_known_def split: option.splits)
  from Cons.IH[OF rest] obtain res where
    res: "\<And>mh w. convert_formats mh rows m w = (res, w)"
    and same: "\<And>out m2. res = Inr (out, m2) \<Longrightarrow> m2 = m"
    by blast
  let ?step = "case copy_account k r m of Inl e \<Rightarrow> Inl e | Inr r1 \<Rightarrow> Inr (rename_fields r1, m)"
  let ?res = "case ?step of
                Inl e \<Rightarrow> Inl e
              | Inr p \<Rightarrow> (case res of Inl e \<Rightarrow> Inl e
                                   | Inr q \<Rightarrow> Inr (fst p # fst q, snd q))"
  have "convert_formats mh (r # rows) m w = (?res, w)" for mh w
    by (simp add: convert_row_known[OF k] res split: sum.splits prod.splits)
  moreover have "m2 = m" if "?res = Inr (out, m2)" for out m2
    using that same by (auto split: sum.splits prod.splits)
  ultimately show ?case by blast
qed

lemma load_csv_files:
  "files w filename = files w' filename
   \<Longrightarrow> load_csv filename headers flag w = load_csv filename headers flag w'"
  by (simp add: load_csv_def)

lemma load_csv_exists:
  "load_csv filename headers flag w = Inr d \<Longrightarrow> files w filename \<noteq> None"
  by (auto simp: load_csv_def split: option.splits)

lemma create_mapping_files:
  "files (create_mapping_if_missing w) f =
     (if f = DEFAULT_MAPPING_CSV_FILENAME \<and> files w f = None then Some [] else files w f)"
  by (auto simp: create_mapping_if_missing_def)

lemma create_mapping_idem:
  "files w DEFAULT_MAPPING_CSV_FILENAME \<noteq> None \<Longrightarrow> create_mapping_if_missing w = w"
  by (auto simp: create_mapping_if_missing_def)

lemma create_mapping_other [simp]:
  "prompts (create_mapping_if_missing w) = prompts w"
  "answers (create_mapping_if_missing w) = answers w"
  "now (create_mapping_if_missing w) = now w"
  by (simp_all add: create_mapping_if_missing_def)

lemma billing_filename_now:
  "now w' = now w \<Longrightarrow> billing_filename u w' = billing_filename u w"
  by (simp add: billing_filename_def)

lemma main_known:
  assumes src: "load_csv src SOURCE_HEADERS False w = Inr (RowList rows)"
    and mp: "load_csv DEFAULT_MAPPING_CSV_FILENAME MAPPING_HEADERS True
               (create_mapping_if_missing w) = Inr (RowDict m)"
    and conv: "\<And>mh w'. convert_formats mh rows m w' = (res, w')"
  shows "main mh bh src dest w =
     (case res of
        Inl e \<Rightarrow> (Inl e, create_mapping_if_missing w)
      | Inr p \<Rightarrow> write_billing_csv bh (fst p) dest (create_mapping_if_missing w))"
  by (simp add: main_def src mp Let_def as_rows_def as_dict_def convert_and_write_def conv
      split: sum.splits prod.splits)

lemma main_stops:
  assumes src: "load_csv src SOURCE_HEADERS False w = Inr (RowList (r # rs))"
    and mp: "load_csv DEFAULT_MAPPING_CSV_FILENAME MAPPING_HEADERS True w = Inr (RowDict m)"
    and step: "convert_row mh r m w = (Inl e, w1)"
  shows "main mh bh src dest w = (Inl e, w1)"
proof -
  have "files w DEFAULT_MAPPING_CSV_FILENAME \<noteq> None" using mp by (rule load_csv_exists)
  then have c: "create_mapping_if_missing w = w" by (rule create_mapping_idem)
  show ?thesis
    by (simp add: main_def c src mp as_rows_def as_dict_def convert_and_write_def step)
qed

lemma write_billing_result:
  "write_billing_csv bh out dest w =
     ((case fst (writerows bh out) of None \<Rightarrow> Inr () | Some e \<Rightarrow> Inl e),
      w\<lparr>files := (files w)(billing_filename dest w \<mapsto> writerow bh @ snd (writerows bh out))\<rparr>)"
  by (simp add: write_billing_csv_def write_csv_def split: prod.splits option.splits)

subsection \<open>The example run\<close>

lemma populated_source:
  assumes "files w DEFAULT_SOURCE_CSV_FILENAME = Some source_text"
  shows "load_csv DEFAULT_SOURCE_CSV_FILENAME SOURCE_HEADERS False w = Inr (RowList [example_row])"
proof -
  let ?recs = "[[''No'', ''Customer ID'', ''Company Name'', ''Flat Charge'', ''Current Volume'',
                 ''Current Amount'', ''YTD Volume'', ''YTD Amount''],
                [''1'', ''C1'', ''Acme'', ''10'', ''5'', ''50'', ''20'', ''200'']]"
  have t: "source_text = concat (map writerow ?recs)"
    by (simp add: source_text_def writerow_def quote_cell_def DQUOTE_def COMMA_def CR_def LF_def)
  have rb: "csv_reader (split_lines (universal_newlines (decode_utf8_sig source_text)))
              = (?recs, None)"
    unfolding t by (rule read_back) (simp add: CR_def FIELD_LIMIT_def)
  have "dict_reader ?recs = [example_row]"
    by (simp add: dict_reader_def dict_row_def py_dict_def example_row_def Let_def)
  then show ?thesis using assms rb by (simp add: load_csv_def)
qed

lemma populated_mapping:
  assumes "files w DEFAULT_MAPPING_CSV_FILENAME = Some mapping_text"
  shows "load_csv DEFAULT_MAPPING_CSV_FILENAME MAPPING_HEADERS True w = Inr (RowDict known_mapping)"
proof -
  let ?recs = "[example_mh, [''C1'', ''Acme'', ''ACC-1'']]"
  have t: "mapping_text = concat (map writerow ?recs)"
    by (simp add: mapping_text_def example_mh_def writerow_def quote_cell_def DQUOTE_def COMMA_def
        CR_def LF_def)
  have rb: "csv_reader (split_lines (universal_newlines (decode_utf8_sig mapping_text)))
              = (?recs, None)"
    unfolding t by (rule read_back) (simp add: example_mh_def CR_def FIELD_LIMIT_def)
  have "load_dict (dict_reader ?recs) [] = Inr known_mapping"
    by (simp add: dict_reader_def dict_row_def py_dict_def example_mh_def Let_def getitem_def
        ACCOUNT_KEY_def known_mapping_def mapping_entry_def)
  then show ?thesis using assms rb by (simp add: load_csv_def)
qed



lemma long_line_source:
  "files long_line_world DEFAULT_SOURCE_CSV_FILENAME = Some source_text"
  by (simp add: long_line_world_def DEFAULT_SOURCE_CSV_FILENAME_def
      DEFAULT_MAPPING_CSV_FILENAME_def)

lemma long_line_loaded:
  "load_csv DEFAULT_MAPPING_CSV_FILENAME MAPPING_HEADERS True long_line_world
     = Inr (RowDict long_line_mapping)"
proof -
  let ?recs = "[[''Customer ID'', ''Company Name'', ''Account Number''],
                [''C0'', ''Zenith'', ''ACC-0'', ''vip'']]"
  have t: "files long_line_world DEFAULT_MAPPING_CSV_FILENAME = Some (concat (map writerow ?recs))"
    by (simp add: long_line_world_def writerow_def quote_cell_def DQUOTE_def
        COMMA_def CR_def LF_def)
  have rb: "csv_reader (split_lines (universal_newlines (decode_utf8_sig (concat (map writerow ?recs)))))
              = (?recs, None)"
    by (rule read_back) (simp add: CR_def FIELD_LIMIT_def)
  have "load_dict (dict_reader ?recs) [] = Inr long_line_mapping"
    by (simp add: dict_reader_def dict_row_def py_dict_def Let_def getitem_def
        ACCOUNT_KEY_def long_line_mapping_def)
  then show ?thesis using t rb by (simp add: load_csv_def)
qed

lemma example_known: "all_known known_mapping [example_row]"
  by (simp add: all_known_def account_key_of_def example_row_key known_mapping_def)

lemma example_convert:
  "convert_formats mh [example_row] known_mapping w
     = (Inr ([setitem example_row ''Account Number'' (Some ''ACC-1'')], known_mapping), w)"
  by (simp add: convert_row_present[OF example_row_key known_mapping_entry known_entry_number]
      example_rename)

lemma populated_main:
  assumes s: "files w DEFAULT_SOURCE_CSV_FILENAME = Some source_text"
    and m: "files w DEFAULT_MAPPING_CSV_FILENAME = Some mapping_text"
  shows "main mh bh DEFAULT_SOURCE_CSV_FILENAME dest w
       = write_billing_csv bh [setitem example_row ''Account Number'' (Some ''ACC-1'')] dest w"
proof -
  have c: "create_mapping_if_missing w = w" using m by (intro create_mapping_idem) simp
  have mp: "load_csv DEFAULT_MAPPING_CSV_FILENAME MAPPING_HEADERS True
              (create_mapping_if_missing w) = Inr (RowDict known_mapping)"
    unfolding c using m by (rule populated_mapping)
  from main_known[OF populated_source[OF s] mp example_convert, of mh bh dest]
  show ?thesis by (simp add: c)
qed

lemma enriched_example_writes:
  "distinct bh \<Longrightarrow> set bh = BILLING_HEADERS \<Longrightarrow>
   writerows bh [setitem example_row ''Account Number'' (Some ''ACC-1'')]
     = (None, writerow (row_values bh (setitem example_row ''Account Number'' (Some ''ACC-1''))))"
  by (simp add: dict_to_list_def extra_setitem keys_setitem example_row_keys[simplified]
      billing_is_source_plus example_row_def SOURCE_HEADERS_def)

lemma populated_files:
  "files populated_world DEFAULT_SOURCE_CSV_FILENAME = Some source_text"
  "files populated_world DEFAULT_MAPPING_CSV_FILENAME = Some mapping_text"
  by (simp_all add: populated_world_def DEFAULT_SOURCE_CSV_FILENAME_def
      DEFAULT_MAPPING_CSV_FILENAME_def)

lemma first_run_eq:
  "first_run = (Inr (),
     populated_world\<lparr>files := (files populated_world)(''billing_20240305_1407.csv'' \<mapsto>
        csv_text example_bh [setitem example_row ''Account Number'' (Some ''ACC-1'')])\<rparr>)"
proof -
  have n: "billing_filename DEFAULT_DEST_CSV_FILENAME populated_world = ''billing_20240305_1407.csv''"
    by (simp add: billing_filename_def populated_world_def strftime_def zero_pad_def digit_def decimal.simps
        DEFAULT_DEST_CSV_FILENAME_PREFIX_def)
  have b: "distinct example_bh" "set example_bh = BILLING_HEADERS"
    using example_bh_iteration by (simp_all add: iteration_of_def)
  show ?thesis
    unfolding first_run_def populated_main[OF populated_files] write_billing_result
      enriched_example_writes[OF b] n
    by (simp add: csv_text_def)
qed

lemma second_run_reordered_eq:
  "second_run_reordered = (Inr (),
     (snd first_run)\<lparr>now := next_day,
        files := (files (snd first_run))(''billing_20240306_0900.csv'' \<mapsto>
          csv_text (rev example_bh) [setitem example_row ''Account Number'' (Some ''ACC-1'')])\<rparr>)"
proof -
  let ?w = "(snd first_run)\<lparr>now := next_day\<rparr>"
  have n: "billing_filename DEFAULT_DEST_CSV_FILENAME ?w = ''billing_20240306_0900.csv''"
    by (simp add: billing_filename_def next_day_def strftime_def zero_pad_def digit_def decimal.simps
        DEFAULT_DEST_CSV_FILENAME_PREFIX_def)
  have b: "distinct (rev example_bh)" "set (rev example_bh) = BILLING_HEADERS"
    using example_bh_iteration by (simp_all add: iteration_of_def)
  have f: "files ?w DEFAULT_SOURCE_CSV_FILENAME = Some source_text"
    "files ?w DEFAULT_MAPPING_CSV_FILENAME = Some mapping_text"
    by (simp_all add: first_run_eq populated_world_def DEFAULT_SOURCE_CSV_FILENAME_def
        DEFAULT_MAPPING_CSV_FILENAME_def)
  show ?thesis
    unfolding second_run_reordered_def populated_main[OF f] write_billing_result
      enriched_example_writes[OF b] n
    by (simp add: csv_text_def)
qed

section \<open>Claims about the enrichment loop\<close>




text \<open>
  C2. A source row whose Customer ID is in the mapping table gets, as its Account
  Number, the Account Number stored in the table for that key, in the record and in
  the cell the writer emits for it, and the world is left as it was: no prompt, no
  answer consumed, no file written. The mapping table is unchanged.
\<close>

theorem known_account_copied_without_prompt:
  assumes "map_of (cells r) ACCOUNT_KEY = Some key"
    and "map_of m key = Some ent"
    and "map_of (cells ent) ''Account Number'' = Some a"
  shows "\<exists>r1. convert_row mh r m w = (Inr (r1, m), w)
           \<and> map_of (cells r1) ''Account Number'' = Some a
           \<and> (''Account Number'' \<in> set bh \<longrightarrow>
                 map_of (zip bh (row_values bh r1)) ''Account Number''
                   = Some (case a of None \<Rightarrow> [] | Some s \<Rightarrow> s))"
proof -
  let ?r1 = "rename_fields (setitem r ''Account Number'' a)"
  have n: "map_of (cells ?r1) ''Account Number'' = Some a"
    by (simp add: rename_keeps_account_number map_of_setitem)
  have "convert_row mh r m w = (Inr (?r1, m), w)"
    by (rule convert_row_present[OF assms])
  with n show ?thesis
    by (auto simp: field_written)
qed

theorem known_account_witness:
  "\<exists>r1. convert_row example_mh example_row known_mapping example_world
            = (Inr (r1, known_mapping), example_world)
        \<and> map_of (cells r1) ''Account Number'' = Some (Some ''ACC-1'')
        \<and> map_of (zip example_bh (row_values example_bh r1)) ''Account Number'' = Some ''ACC-1''"
  using known_account_copied_without_prompt[OF example_row_key known_mapping_entry
      known_entry_number, of example_mh example_world example_bh]
  by (simp add: example_bh_def)

text \<open>
  C7, as amended. Enrichment changes only the Account Number field and the fields
  the rename table names, as a source or as a destination: every other field of every
  record keeps its value (and so do the surplus cells), the records come out one for
  one in the order they went in, and the destination file lists them in that order
  after the header line.
\<close>

theorem enrichment_frame:
  assumes "convert_formats mh rs m w = (Inr (out, m2), w2)"
  shows "length out = length rs
       \<and> (\<forall>i < length rs. extra (out ! i) = extra (rs ! i)
            \<and> (\<forall>f. f \<noteq> ''Account Number'' \<longrightarrow> f \<notin> set (map fst FIELD_NAME_CHANGE)
                   \<longrightarrow> f \<notin> set (map snd FIELD_NAME_CHANGE)
                   \<longrightarrow> map_of (cells (out ! i)) f = map_of (cells (rs ! i)) f))
       \<and> files (snd (write_billing_csv bh out user_filename w2)) (billing_filename user_filename w2)
            = Some (writerow bh @ snd (writerows bh out))
       \<and> (list_all (\<lambda>r. dict_to_list bh r = Inr (row_values bh r)) out \<longrightarrow>
            writerow bh @ snd (writerows bh out) = csv_text bh out)"
proof -
  have rel: "list_all2 (\<lambda>r r1. \<exists>a. r1 = rename_fields (setitem r ''Account Number'' a)) rs out"
    using assms by (rule convert_formats_rel)
  have len: "length out = length rs" using rel by (simp add: list_all2_lengthD)
  have frame: "extra (out ! i) = extra (rs ! i)
            \<and> (\<forall>f. f \<noteq> ''Account Number'' \<longrightarrow> f \<notin> set (map fst FIELD_NAME_CHANGE)
                   \<longrightarrow> f \<notin> set (map snd FIELD_NAME_CHANGE)
                   \<longrightarrow> map_of (cells (out ! i)) f = map_of (cells (rs ! i)) f)"
    if "i < length rs" for i
  proof -
    from list_all2_nthD[OF rel that] obtain a
      where "out ! i = rename_fields (setitem (rs ! i) ''Account Number'' a)" by auto
    then show ?thesis
      by (simp add: rename_fields_extra extra_setitem rename_fields_other map_of_setitem)
  qed
  have dest: "files (snd (write_billing_csv bh out user_filename w2))
                 (billing_filename user_filename w2)
            = Some (writerow bh @ snd (writerows bh out))"
    by (simp add: write_billing_files)
  have ordered: "writerow bh @ snd (writerows bh out) = csv_text bh out"
    if "list_all (\<lambda>r. dict_to_list bh r = Inr (row_values bh r)) out"
    using that by (induction out) (auto simp: csv_text_def split: prod.splits)
  from len frame dest ordered show ?thesis by blast
qed

theorem enrichment_frame_witness:
  "length [setitem example_row ''Account Number'' (Some ''ACC-1'')] = length [example_row]
   \<and> map_of (cells ([setitem example_row ''Account Number'' (Some ''ACC-1'')] ! 0)) ''Flat Charge''
       = map_of (cells ([example_row] ! 0)) ''Flat Charge''
   \<and> writerow example_bh
        @ snd (writerows example_bh [setitem example_row ''Account Number'' (Some ''ACC-1'')])
       = csv_text example_bh [setitem example_row ''Account Number'' (Some ''ACC-1'')]"
proof -
  have ok: "list_all (\<lambda>r. dict_to_list example_bh r = Inr (row_values example_bh r))
              [setitem example_row ''Account Number'' (Some ''ACC-1'')]"
    by (simp add: dict_to_list_def setitem_def example_row_def example_bh_def)
  have f: "''Flat Charge'' \<noteq> ''Account Number''
         \<and> ''Flat Charge'' \<notin> set (map fst FIELD_NAME_CHANGE)
         \<and> ''Flat Charge'' \<notin> set (map snd FIELD_NAME_CHANGE)"
    by (simp add: FIELD_NAME_CHANGE_def)
  from enrichment_frame[OF example_run, of example_bh DEFAULT_DEST_CSV_FILENAME] ok f
  show ?thesis by simp
qed

text \<open>
  C7 as stated fails. The rename table's destination name is neither Account Number
  nor a source name of the table, yet a record that has the source field gets the
  destination field overwritten with the source field's value.
\<close>

theorem rename_destination_overwritten:
  "convert_row example_mh
      \<lparr>cells = [(''Customer ID'', Some ''C1''), (''SOURCE_FIELD_NAME'', Some ''moved''),
                (''DESTINATION_FIELD_NAME'', Some ''kept'')], extra = None\<rparr>
      known_mapping example_world
    = (Inr (\<lparr>cells = [(''Customer ID'', Some ''C1''), (''DESTINATION_FIELD_NAME'', Some ''moved''),
                      (''Account Number'', Some ''ACC-1'')], extra = None\<rparr>,
            known_mapping), example_world)
   \<and> ''DESTINATION_FIELD_NAME'' \<noteq> ''Account Number''
   \<and> ''DESTINATION_FIELD_NAME'' \<notin> set (map fst FIELD_NAME_CHANGE)
   \<and> map_of [(''Customer ID'', Some ''C1''), (''SOURCE_FIELD_NAME'', Some ''moved''),
              (''DESTINATION_FIELD_NAME'', Some ''kept'')] ''DESTINATION_FIELD_NAME''
        \<noteq> map_of [(''Customer ID'', Some ''C1''), (''DESTINATION_FIELD_NAME'', Some ''moved''),
                   (''Account Number'', Some ''ACC-1'')] ''DESTINATION_FIELD_NAME''"
  by (simp add: convert_row_def resolve_account_def copy_account_def getitem_def ACCOUNT_KEY_def
      known_mapping_def mapping_entry_def setitem_def rename_fields_def rename_field_def
      FIELD_NAME_CHANGE_def)

text \<open>
  C8, as amended. An empty answer at the prompt is taken as it is: one prompt, one
  answer consumed, no second prompt. When no entry already in the mapping table has a
  field other than Customer ID, Company Name and Account Number, nor surplus cells, the
  empty string is the Account Number of the new mapping entry, of the line written for
  that entry at the end of the mapping file (which the \<open>csv\<close> reader parses back with
  an empty last cell when no value holds a carriage return or exceeds its field limit),
  and of the output record and the cell the writer emits for it.
\<close>

theorem empty_answer_accepted:
  assumes mh: "iteration_of MAPPING_HEADERS mh"
    and key: "map_of (cells r) ACCOUNT_KEY = Some key"
    and absent: "key \<notin> set (map fst m)"
    and name: "map_of (cells r) ''Company Name'' = Some name"
    and ans: "answers w = [] # rest"
    and ok: "list_all mapping_row_ok (map snd m)"
  shows "\<exists>r1 w1.
      convert_row mh r m w = (Inr (r1, m @ [(key, mapping_entry key name [])]), w1)
    \<and> r1 = rename_fields (setitem r ''Account Number'' (Some []))
    \<and> prompts w1 = prompts w @ [prompt_text key name] \<and> answers w1 = rest
    \<and> map_of (cells (mapping_entry key name [])) ''Account Number'' = Some (Some [])
    \<and> files w1 DEFAULT_MAPPING_CSV_FILENAME
         = Some (csv_text mh (map snd m) @ writerow (row_values mh (mapping_entry key name [])))
    \<and> map_of (zip mh (row_values mh (mapping_entry key name []))) ''Account Number'' = Some []
    \<and> (list_all (\<lambda>e. list_all storable (row_values mh e))
           (map snd m @ [mapping_entry key name []]) \<longrightarrow>
         csv_reader (split_lines (universal_newlines (decode_utf8_sig
            (csv_text mh (map snd m) @ writerow (row_values mh (mapping_entry key name []))))))
           = (mh # map (row_values mh) (map snd m) @ [row_values mh (mapping_entry key name [])],
              None))
    \<and> map_of (cells r1) ''Account Number'' = Some (Some [])
    \<and> (''Account Number'' \<in> set bh \<longrightarrow>
          map_of (zip bh (row_values bh r1)) ''Account Number'' = Some [])"
proof -
  let ?ent = "mapping_entry key name []"
  let ?m1 = "m @ [(key, ?ent)]"
  let ?w1 = "w\<lparr>prompts := prompts w @ [prompt_text key name], answers := rest,
       files := (files w)(DEFAULT_MAPPING_CSV_FILENAME \<mapsto> csv_text mh (map snd ?m1))\<rparr>"
  let ?r1 = "rename_fields (setitem r ''Account Number'' (Some []))"
  have step: "convert_row mh r m w = (Inr (?r1, ?m1), ?w1)"
    by (rule convert_row_absent[OF assms])
  have ent: "map_of (cells ?ent) ''Account Number'' = Some (Some [])"
    by (simp add: mapping_entry_def)
  have "''Account Number'' \<in> set mh"
    using mh by (simp add: iteration_of_def MAPPING_HEADERS_def)
  then have line: "map_of (zip mh (row_values mh ?ent)) ''Account Number'' = Some []"
    using ent by (simp add: field_written)
  have rec: "map_of (cells ?r1) ''Account Number'' = Some (Some [])"
    by (simp add: rename_keeps_account_number map_of_setitem)
  have out: "''Account Number'' \<in> set bh \<longrightarrow>
          map_of (zip bh (row_values bh ?r1)) ''Account Number'' = Some []"
    using rec by (simp add: field_written)
  have persisted: "files ?w1 DEFAULT_MAPPING_CSV_FILENAME
         = Some (csv_text mh (map snd m) @ writerow (row_values mh ?ent))"
    by (simp add: csv_text_snoc)
  have reread: "list_all (\<lambda>e. list_all storable (row_values mh e)) (map snd m @ [?ent]) \<longrightarrow>
         csv_reader (split_lines (universal_newlines (decode_utf8_sig
            (csv_text mh (map snd m) @ writerow (row_values mh ?ent)))))
           = (mh # map (row_values mh) (map snd m) @ [row_values mh ?ent], None)"
    using csv_text_read_back[OF mh, of "map snd m @ [?ent]"] by (simp add: csv_text_snoc)
  show ?thesis
    apply (rule exI[of _ ?r1], rule exI[of _ ?w1])
    apply (intro conjI step ent line rec out persisted reread refl)
     apply simp_all
    done
qed

text \<open>
  The same on the row of the documented example, a table with one other account
  and an operator who types an empty line: the record and the table returned, the
  prompt, the bytes of the mapping file, what the reader makes of them, and the line
  the writer emits for the record.
\<close>

theorem empty_answer_witness:
  \<open>fst (convert_row example_mh example_row example_mapping silent_world)
     = Inr (\<lparr>cells = [(''No'', Some ''1''), (''Customer ID'', Some ''C1''),
               (''Company Name'', Some ''Acme''), (''Flat Charge'', Some ''10''),
               (''Current Volume'', Some ''5''), (''Current Amount'', Some ''50''),
               (''YTD Volume'', Some ''20''), (''YTD Amount'', Some ''200''),
               (''Account Number'', Some [])], extra = None\<rparr>,
            [(Some ''C0'', \<lparr>cells = [(''Customer ID'', Some ''C0''),
                 (''Company Name'', Some ''Zenith''), (''Account Number'', Some ''ACC-0'')],
                 extra = None\<rparr>),
             (Some ''C1'', \<lparr>cells = [(''Customer ID'', Some ''C1''),
                 (''Company Name'', Some ''Acme''), (''Account Number'', Some [])],
                 extra = None\<rparr>)])
   \<and> prompts (snd (convert_row example_mh example_row example_mapping silent_world))
       = [''Please enter the account number for '' @ [CHR 0x27] @ ''Acme'' @ [CHR 0x27]
            @ '' aka ID C1: '']
   \<and> answers (snd (convert_row example_mh example_row example_mapping silent_world)) = []
   \<and> files (snd (convert_row example_mh example_row example_mapping silent_world))
         DEFAULT_MAPPING_CSV_FILENAME
       = Some (''"Customer ID","Company Name","Account Number"'' @ [CHR 0x0D, CHR 0x0A]
            @ ''"C0","Zenith","ACC-0"'' @ [CHR 0x0D, CHR 0x0A]
            @ ''"C1","Acme",""'' @ [CHR 0x0D, CHR 0x0A])
   \<and> csv_reader (split_lines (universal_newlines (decode_utf8_sig
         (''"Customer ID","Company Name","Account Number"'' @ [CHR 0x0D, CHR 0x0A]
            @ ''"C0","Zenith","ACC-0"'' @ [CHR 0x0D, CHR 0x0A]
            @ ''"C1","Acme",""'' @ [CHR 0x0D, CHR 0x0A]))))
       = ([[''Customer ID'', ''Company Name'', ''Account Number''],
           [''C0'', ''Zenith'', ''ACC-0''], [''C1'', ''Acme'', []]], None)
   \<and> writerow (row_values example_bh
         (fst (projr (fst (convert_row example_mh example_row example_mapping silent_world)))))
       = ''"1","C1","Acme","","10","5","50","20","200"'' @ [CHR 0x0D, CHR 0x0A]\<close>
proof -
  let ?ent = "mapping_entry (Some ''C1'') (Some ''Acme'') []"
  let ?m1 = "example_mapping @ [(Some ''C1'', ?ent)]"
  have a: "answers silent_world = [] # []" by (simp add: silent_world_def)
  have w0: "prompts silent_world = []" by (simp add: silent_world_def)
  have st: "list_all (\<lambda>e. list_all storable (row_values example_mh e))
              (map snd example_mapping @ [?ent])"
    using example_table_storable[of "[]"] by (simp add: storable_def)
  have q: \<open>quote_cell [] = ''""''\<close>
    by (simp add: quote_cell_def DQUOTE_def)
  have content: \<open>csv_text example_mh (map snd example_mapping) @ writerow (row_values example_mh ?ent)
      = ''"Customer ID","Company Name","Account Number"'' @ [CHR 0x0D, CHR 0x0A]
            @ ''"C0","Zenith","ACC-0"'' @ [CHR 0x0D, CHR 0x0A]
            @ ''"C1","Acme",""'' @ [CHR 0x0D, CHR 0x0A]\<close>
    using example_table_text[of "[]"] unfolding q by (simp add: csv_text_snoc)
  have rows: "example_mh # map (row_values example_mh) (map snd example_mapping)
                @ [row_values example_mh ?ent]
      = [[''Customer ID'', ''Company Name'', ''Account Number''],
           [''C0'', ''Zenith'', ''ACC-0''], [''C1'', ''Acme'', []]]"
    using example_table_rows[of "[]"] by simp
  from empty_answer_accepted[OF example_mh_iteration example_row_key example_row_unknown
      example_row_name a example_mapping_ok, of example_bh]
  obtain r1 w1 where
    s: "convert_row example_mh example_row example_mapping silent_world = (Inr (r1, ?m1), w1)"
    and r: "r1 = rename_fields (setitem example_row ''Account Number'' (Some []))"
    and p: "prompts w1 = prompts silent_world @ [prompt_text (Some ''C1'') (Some ''Acme'')]"
    and an: "answers w1 = []"
    and f: "files w1 DEFAULT_MAPPING_CSV_FILENAME
         = Some (csv_text example_mh (map snd example_mapping)
                   @ writerow (row_values example_mh ?ent))"
    and rd: "list_all (\<lambda>e. list_all storable (row_values example_mh e))
           (map snd example_mapping @ [?ent]) \<longrightarrow>
         csv_reader (split_lines (universal_newlines (decode_utf8_sig
            (csv_text example_mh (map snd example_mapping)
               @ writerow (row_values example_mh ?ent)))))
           = (example_mh # map (row_values example_mh) (map snd example_mapping)
                @ [row_values example_mh ?ent], None)"
    by blast
  have c1: "fst (convert_row example_mh example_row example_mapping silent_world)
     = Inr (\<lparr>cells = [(''No'', Some ''1''), (''Customer ID'', Some ''C1''),
               (''Company Name'', Some ''Acme''), (''Flat Charge'', Some ''10''),
               (''Current Volume'', Some ''5''), (''Current Amount'', Some ''50''),
               (''YTD Volume'', Some ''20''), (''YTD Amount'', Some ''200''),
               (''Account Number'', Some [])], extra = None\<rparr>,
            [(Some ''C0'', \<lparr>cells = [(''Customer ID'', Some ''C0''),
                 (''Company Name'', Some ''Zenith''), (''Account Number'', Some ''ACC-0'')],
                 extra = None\<rparr>),
             (Some ''C1'', \<lparr>cells = [(''Customer ID'', Some ''C1''),
                 (''Company Name'', Some ''Acme''), (''Account Number'', Some [])],
                 extra = None\<rparr>)])"
    unfolding s r example_enriched example_table by simp
  have c2: "prompts (snd (convert_row example_mh example_row example_mapping silent_world))
       = [''Please enter the account number for '' @ [CHR 0x27] @ ''Acme'' @ [CHR 0x27]
            @ '' aka ID C1: '']"
    unfolding s by (simp add: p w0 example_prompt)
  have c3: "answers (snd (convert_row example_mh example_row example_mapping silent_world)) = []"
    unfolding s by (simp add: an)
  have c4: \<open>files (snd (convert_row example_mh example_row example_mapping silent_world))
         DEFAULT_MAPPING_CSV_FILENAME
       = Some (''"Customer ID","Company Name","Account Number"'' @ [CHR 0x0D, CHR 0x0A]
            @ ''"C0","Zenith","ACC-0"'' @ [CHR 0x0D, CHR 0x0A]
            @ ''"C1","Acme",""'' @ [CHR 0x0D, CHR 0x0A])\<close>
    using f unfolding s content by simp
  have c5: \<open>csv_reader (split_lines (universal_newlines (decode_utf8_sig
         (''"Customer ID","Company Name","Account Number"'' @ [CHR 0x0D, CHR 0x0A]
            @ ''"C0","Zenith","ACC-0"'' @ [CHR 0x0D, CHR 0x0A]
            @ ''"C1","Acme",""'' @ [CHR 0x0D, CHR 0x0A]))))
       = ([[''Customer ID'', ''Company Name'', ''Account Number''],
           [''C0'', ''Zenith'', ''ACC-0''], [''C1'', ''Acme'', []]], None)\<close>
    using rd st unfolding content rows by simp
  have c6: \<open>writerow (row_values example_bh
         (fst (projr (fst (convert_row example_mh example_row example_mapping silent_world)))))
       = ''"1","C1","Acme","","10","5","50","20","200"'' @ [CHR 0x0D, CHR 0x0A]\<close>
    unfolding c1
    by (simp add: row_values_def example_bh_def writerow_def quote_cell_def DQUOTE_def
        COMMA_def CR_def LF_def)
  show ?thesis
    by (rule conjI[OF c1 conjI[OF c2 conjI[OF c3 conjI[OF c4 conjI[OF c5 c6]]]]])
qed

text \<open>
  C8 as stated fails. A line of the mapping file has one cell more than the header,
  which \<open>load_csv\<close> accepts: the entry it loads keeps the surplus cell. The operator
  types an empty line for an account the table does not have. The answer is taken, but
  the rewrite of the mapping file raises \<open>ValueError\<close> at that entry: the file is left
  with its header line only, so the empty Account Number reaches neither the mapping
  file nor an output record, and the run ends with that exception.
\<close>

theorem empty_answer_rewrite_fails:
  \<open>load_csv DEFAULT_MAPPING_CSV_FILENAME MAPPING_HEADERS True long_line_world
     = Inr (RowDict long_line_mapping)
   \<and> Some ''C1'' \<notin> set (map fst long_line_mapping)
   \<and> answers long_line_world = [[]]
   \<and> convert_formats example_mh [example_row] long_line_mapping long_line_world
     = (Inl ValueError,
        long_line_world\<lparr>prompts := [''Please enter the account number for '' @ [CHR 0x27]
                                      @ ''Acme'' @ [CHR 0x27] @ '' aka ID C1: ''],
                      answers := [],
                      files := (files long_line_world)(DEFAULT_MAPPING_CSV_FILENAME \<mapsto>
                         ''"Customer ID","Company Name","Account Number"''
                           @ [CHR 0x0D, CHR 0x0A])\<rparr>)
   \<and> fst (main example_mh example_bh DEFAULT_SOURCE_CSV_FILENAME DEFAULT_DEST_CSV_FILENAME
             long_line_world) = Inl ValueError
   \<and> snd (main example_mh example_bh DEFAULT_SOURCE_CSV_FILENAME DEFAULT_DEST_CSV_FILENAME
             long_line_world)
     = snd (convert_formats example_mh [example_row] long_line_mapping long_line_world)\<close>
proof -
  have a: "answers long_line_world = [] # []" by (simp add: long_line_world_def)
  have p: "prompts long_line_world = []" by (simp add: long_line_world_def)
  have absent: "Some ''C1'' \<notin> set (map fst long_line_mapping)"
    by (simp add: long_line_mapping_def)
  have bad: "dict_to_list example_mh
               \<lparr>cells = [(''Customer ID'', Some ''C0''), (''Company Name'', Some ''Zenith''),
                         (''Account Number'', Some ''ACC-0'')],
                extra = Some [''vip'']\<rparr> = Inl ValueError"
    by (simp add: dict_to_list_def)
  have step: "convert_row example_mh example_row long_line_mapping long_line_world
     = (Inl ValueError,
        long_line_world\<lparr>prompts := prompts long_line_world @ [prompt_text (Some ''C1'') (Some ''Acme'')],
                      answers := [],
                      files := (files long_line_world)(DEFAULT_MAPPING_CSV_FILENAME \<mapsto>
                         writerow example_mh)\<rparr>)"
    by (rule convert_row_rejected[OF example_row_key absent example_row_name a _ bad])
       (simp add: long_line_mapping_def)
  have loop: \<open>convert_formats example_mh [example_row] long_line_mapping long_line_world
     = (Inl ValueError,
        long_line_world\<lparr>prompts := [''Please enter the account number for '' @ [CHR 0x27]
                                      @ ''Acme'' @ [CHR 0x27] @ '' aka ID C1: ''],
                      answers := [],
                      files := (files long_line_world)(DEFAULT_MAPPING_CSV_FILENAME \<mapsto>
                         ''"Customer ID","Company Name","Account Number"''
                           @ [CHR 0x0D, CHR 0x0A])\<rparr>)\<close>
    by (simp add: step p header_line example_prompt)
  have run: "main example_mh example_bh DEFAULT_SOURCE_CSV_FILENAME DEFAULT_DEST_CSV_FILENAME
               long_line_world
     = (Inl ValueError,
        long_line_world\<lparr>prompts := prompts long_line_world @ [prompt_text (Some ''C1'') (Some ''Acme'')],
                      answers := [],
                      files := (files long_line_world)(DEFAULT_MAPPING_CSV_FILENAME \<mapsto>
                         writerow example_mh)\<rparr>)"
    by (rule main_stops[OF populated_source[OF long_line_source] long_line_loaded step])
  have r1: "fst (main example_mh example_bh DEFAULT_SOURCE_CSV_FILENAME DEFAULT_DEST_CSV_FILENAME
             long_line_world) = Inl ValueError"
    by (simp add: run)
  have r2: "snd (main example_mh example_bh DEFAULT_SOURCE_CSV_FILENAME DEFAULT_DEST_CSV_FILENAME
             long_line_world)
     = snd (convert_formats example_mh [example_row] long_line_mapping long_line_world)"
    by (simp add: run step)
  have a1: "answers long_line_world = [[]]" by (simp add: long_line_world_def)
  show ?thesis
    by (rule conjI[OF long_line_loaded conjI[OF absent conjI[OF a1 conjI[OF loop conjI[OF r1 r2]]]]])
qed

text \<open>
  C9. With the shipped rename table, whose only pair is the placeholder
  \<open>SOURCE_FIELD_NAME\<close> to \<open>DESTINATION_FIELD_NAME\<close>, the rename step changes nothing
  in a record whose field names are among the documented source headers: not in the
  record as read, not in the record with its Account Number set (the state in which
  the rename step finds it), so the loop body is the account-number step alone.
\<close>

theorem shipped_rename_is_noop:
  assumes "set (map fst (cells r)) \<subseteq> SOURCE_HEADERS"
  shows "rename_fields r = r
       \<and> rename_fields (setitem r ''Account Number'' a) = setitem r ''Account Number'' a
       \<and> convert_row mh r m w = resolve_account mh r m w"
proof -
  have 1: "rename_fields r = r"
    using assms by (intro rename_fields_noop source_row_no_placeholder) auto
  have 2: "rename_fields (setitem r ''Account Number'' b) = setitem r ''Account Number'' b" for b
    using assms
    by (intro rename_fields_noop source_row_no_placeholder) (auto simp: keys_setitem)
  have 3: "convert_row mh r m w = resolve_account mh r m w"
  proof (cases "resolve_account mh r m w")
    case (Pair res w1)
    show ?thesis
    proof (cases res)
      case (Inl e)
      with Pair show ?thesis by (simp add: convert_row_def)
    next
      case (Inr p)
      obtain r1 m1 where p: "p = (r1, m1)" by (cases p)
      from resolve_account_row[of mh r m w r1 m1 w1] Pair Inr p
      obtain b where "r1 = setitem r ''Account Number'' b" by auto
      with Pair Inr p 2 show ?thesis by (simp add: convert_row_def)
    qed
  qed
  from 1 2 3 show ?thesis by simp
qed

theorem shipped_rename_witness:
  "rename_fields example_row = example_row
   \<and> rename_fields (setitem example_row ''Account Number'' (Some ''ACC-1''))
       = setitem example_row ''Account Number'' (Some ''ACC-1'')
   \<and> convert_row example_mh example_row example_mapping example_world
       = resolve_account example_mh example_row example_mapping example_world"
  using shipped_rename_is_noop[of example_row] example_row_keys by simp

text \<open>
  C10. When every source row has exactly the eight documented source fields (and no
  surplus cells), every record that enrichment returns has exactly the nine
  destination header names as its fields, so the row serializer raises for none of
  them and the destination write completes without an exception (\<open>write_billing_csv\<close>
  itself returns nothing, that is \<open>None\<close>).
\<close>

theorem enriched_rows_fit_billing_headers:
  assumes src: "list_all (\<lambda>r. set (map fst (cells r)) = SOURCE_HEADERS \<and> extra r = None) rs"
    and conv: "convert_formats mh rs m w = (Inr (out, m2), w2)"
    and bh: "iteration_of BILLING_HEADERS bh"
  shows "length out = length rs
       \<and> list_all (\<lambda>r. set (map fst (cells r)) = BILLING_HEADERS \<and> extra r = None) out
       \<and> list_all (\<lambda>r. dict_to_list bh r = Inr (row_values bh r)) out
       \<and> writerows bh out = (None, concat (map (\<lambda>r. writerow (row_values bh r)) out))
       \<and> fst (write_billing_csv bh out user_filename w2) = Inr ()"
proof -
  have rel: "list_all2 (\<lambda>r r1. \<exists>a. r1 = rename_fields (setitem r ''Account Number'' a)) rs out"
    using conv by (rule convert_formats_rel)
  have len: "length out = length rs" using rel by (simp add: list_all2_lengthD)
  have keys: "set (map fst (cells r1)) = BILLING_HEADERS \<and> extra r1 = None"
    if "r1 \<in> set out" for r1
  proof -
    from that obtain i where i: "i < length out" "out ! i = r1"
      by (auto simp: in_set_conv_nth)
    from list_all2_nthD2[OF rel i(1)] i(2) obtain a
      where r1: "r1 = rename_fields (setitem (rs ! i) ''Account Number'' a)" by auto
    define r where "r = rs ! i"
    have r: "r \<in> set rs" using i(1) len by (simp add: r_def)
    note r1 = r1[folded r_def]
    from src r have k: "set (map fst (cells r)) = SOURCE_HEADERS" and e: "extra r = None"
      by (auto simp: list_all_iff)
    have "rename_fields (setitem r ''Account Number'' a) = setitem r ''Account Number'' a"
      using k by (intro rename_fields_noop source_row_no_placeholder) (auto simp: keys_setitem)
    with r1 k e show ?thesis
      by (simp add: keys_setitem extra_setitem billing_is_source_plus)
  qed
  have set_bh: "set bh = BILLING_HEADERS" using bh by (simp add: iteration_of_def)
  have ok: "extra r1 = None \<and> set (map fst (cells r1)) \<subseteq> set bh" if "r1 \<in> set out" for r1
    using keys[OF that] set_bh by simp
  have wr: "writerows bh out = (None, concat (map (\<lambda>r. writerow (row_values bh r)) out))"
    using ok by (rule writerows_ok)
  have d: "dict_to_list bh r1 = Inr (row_values bh r1)" if "r1 \<in> set out" for r1
    using ok[OF that] by (auto simp: dict_to_list_def)
  show ?thesis
    using len keys d wr
    by (simp add: list_all_iff write_billing_csv_def write_csv_def)
qed

theorem enriched_rows_witness:
  "list_all (\<lambda>r. set (map fst (cells r)) = BILLING_HEADERS \<and> extra r = None)
      [setitem example_row ''Account Number'' (Some ''ACC-1'')]
   \<and> dict_to_list example_bh (setitem example_row ''Account Number'' (Some ''ACC-1''))
       = Inr (row_values example_bh (setitem example_row ''Account Number'' (Some ''ACC-1'')))
   \<and> fst (write_billing_csv example_bh [setitem example_row ''Account Number'' (Some ''ACC-1'')]
             DEFAULT_DEST_CSV_FILENAME example_world) = Inr ()"
proof -
  have src: "list_all (\<lambda>r. set (map fst (cells r)) = SOURCE_HEADERS \<and> extra r = None)
      [example_row]"
    using example_row_keys by (simp add: example_row_def)
  from enriched_rows_fit_billing_headers[OF src example_run example_bh_iteration,
      of DEFAULT_DEST_CSV_FILENAME]
  show ?thesis by simp
qed

section \<open>Claims about the destination file name\<close>

text \<open>
  C6. When the file name passed in is the default sentinel, the destination file is
  \<open>billing_\<close>, then the local time as \<open>YYYYMMDD_HHMM\<close>, then \<open>.csv\<close>: four decimal
  digits of the year, two of the month, two of the day, an underscore, two digits of
  the hour and two of the minute, each number padded with zeros, for every reading of
  the clock. At 2024-03-05 14:07 the name is \<open>billing_20240305_1407.csv\<close>. Any
  other name is used as it is. That file, and no other, is the one the writer creates
  or overwrites.
\<close>

theorem billing_filename_policy:
  assumes "clock_reading (now w)"
  shows "billing_filename DEFAULT_DEST_CSV_FILENAME w =
           ''billing_''
           @ [digit (year (now w) div 1000), digit (year (now w) div 100 mod 10),
              digit (year (now w) div 10 mod 10), digit (year (now w) mod 10),
              digit (month (now w) div 10), digit (month (now w) mod 10),
              digit (day (now w) div 10), digit (day (now w) mod 10), CHR ''_'',
              digit (hour (now w) div 10), digit (hour (now w) mod 10),
              digit (minute (now w) div 10), digit (minute (now w) mod 10)]
           @ ''.csv''
   \<and> map digit [0, 1, 2, 3, 4, 5, 6, 7, 8, 9] = ''0123456789''
   \<and> (now w = \<lparr>year = 2024, month = 3, day = 5, hour = 14, minute = 7\<rparr> \<longrightarrow>
        billing_filename DEFAULT_DEST_CSV_FILENAME w = ''billing_20240305_1407.csv'')
   \<and> (user_filename \<noteq> DEFAULT_DEST_CSV_FILENAME \<longrightarrow>
        billing_filename user_filename w = user_filename)
   \<and> files (snd (write_billing_csv bh data user_filename w))
        = (files w)(billing_filename user_filename w \<mapsto> writerow bh @ snd (writerows bh data))"
proof -
  have name: "billing_filename DEFAULT_DEST_CSV_FILENAME w = ''billing_'' @ strftime (now w) @ ''.csv''"
    by (simp add: billing_filename_def DEFAULT_DEST_CSV_FILENAME_PREFIX_def)
  have fmt: "billing_filename DEFAULT_DEST_CSV_FILENAME w =
           ''billing_''
           @ [digit (year (now w) div 1000), digit (year (now w) div 100 mod 10),
              digit (year (now w) div 10 mod 10), digit (year (now w) mod 10),
              digit (month (now w) div 10), digit (month (now w) mod 10),
              digit (day (now w) div 10), digit (day (now w) mod 10), CHR ''_'',
              digit (hour (now w) div 10), digit (hour (now w) mod 10),
              digit (minute (now w) div 10), digit (minute (now w) mod 10)]
           @ ''.csv''"
    unfolding name strftime_digits[OF assms] by simp
  have digits: "map digit [0, 1, 2, 3, 4, 5, 6, 7, 8, 9] = ''0123456789''"
    by (simp add: digit_def)
  have at: "now w = \<lparr>year = 2024, month = 3, day = 5, hour = 14, minute = 7\<rparr> \<longrightarrow>
        billing_filename DEFAULT_DEST_CSV_FILENAME w = ''billing_20240305_1407.csv''"
    unfolding fmt by (simp add: digit_def)
  have other: "user_filename \<noteq> DEFAULT_DEST_CSV_FILENAME \<longrightarrow>
        billing_filename user_filename w = user_filename"
    by (simp add: billing_filename_def)
  have written: "files (snd (write_billing_csv bh data user_filename w))
        = (files w)(billing_filename user_filename w \<mapsto> writerow bh @ snd (writerows bh data))"
    by (rule write_billing_files)
  show ?thesis
    by (rule conjI[OF fmt conjI[OF digits conjI[OF at conjI[OF other written]]]])
qed

theorem billing_filename_witness:
  "billing_filename DEFAULT_DEST_CSV_FILENAME example_world = ''billing_20240305_1407.csv''
   \<and> billing_filename DEFAULT_DEST_CSV_FILENAME (example_world\<lparr>now := next_day\<rparr>)
       = ''billing_20240306_0900.csv''
   \<and> billing_filename ''out.csv'' example_world = ''out.csv''"
proof -
  have c1: "clock_reading (now example_world)"
    by (simp add: clock_reading_def example_world_def)
  have c2: "clock_reading (now (example_world\<lparr>now := next_day\<rparr>))"
    by (simp add: clock_reading_def next_day_def)
  have d: "''out.csv'' \<noteq> DEFAULT_DEST_CSV_FILENAME"
    by (simp add: DEFAULT_DEST_CSV_FILENAME_def DEFAULT_DEST_CSV_FILENAME_PREFIX_def)
  have n1: "billing_filename DEFAULT_DEST_CSV_FILENAME example_world = ''billing_20240305_1407.csv''"
    using billing_filename_policy[OF c1, of "''out.csv''" example_bh "[]"]
    by (simp add: example_world_def digit_def)
  have n2: "billing_filename DEFAULT_DEST_CSV_FILENAME (example_world\<lparr>now := next_day\<rparr>)
       = ''billing_20240306_0900.csv''"
    using billing_filename_policy[OF c2, of "''out.csv''" example_bh "[]"]
    by (simp add: next_day_def digit_def)
  have n3: "billing_filename ''out.csv'' example_world = ''out.csv''"
    using billing_filename_policy[OF c1, of "''out.csv''" example_bh "[]"] d by blast
  from n1 n2 n3 show ?thesis by blast
qed

section \<open>Claims about loading and the mapping file\<close>

text \<open>
  C5. Loading a file in keyed mode, when its header has the Customer ID column and the
  parser raises nothing, returns a dictionary and no error; the dictionary has one
  entry per key, and the entry of a key is the last row of the file with that key. So
  of two or more rows that share an identifier the last one is the entry, without any
  error.
\<close>

theorem duplicate_keys_last_row_wins:
  assumes present: "files w filename = Some txt"
    and parsed: "csv_reader (split_lines (universal_newlines (decode_utf8_sig txt)))
                   = (header # recs, None)"
    and hdr: "ACCOUNT_KEY \<in> set header"
  shows "\<exists>d. load_csv filename headers True w = Inr (RowDict d)
        \<and> distinct (map fst d)
        \<and> (\<forall>k. map_of d k = last_with_key k (dict_reader (header # recs)))"
proof -
  let ?rows = "dict_reader (header # recs)"
  have keyed: "\<forall>r \<in> set ?rows. account_key_of r \<noteq> None"
  proof
    fix r assume "r \<in> set ?rows"
    then obtain vs where "r = dict_row header vs" by (auto simp: dict_reader_def)
    then have "ACCOUNT_KEY \<in> fst ` set (cells r)" using hdr by (simp add: dict_row_keys)
    then show "account_key_of r \<noteq> None"
      by (simp add: account_key_of_def map_of_eq_None_iff)
  qed
  from load_dict_total[OF keyed, of "[]"] obtain d where
    d: "load_dict ?rows [] = Inr d" and dist: "distinct (map fst d)"
    and look: "\<forall>k. map_of d k = (case last_with_key k ?rows of
                                   None \<Rightarrow> map_of [] k | Some r \<Rightarrow> Some r)"
    by auto
  have "load_csv filename headers True w = Inr (RowDict d)"
    using present parsed d by (simp add: load_csv_def)
  moreover have "map_of d k = last_with_key k ?rows" for k
    using look[rule_format, of k] by (simp split: option.splits)
  ultimately show ?thesis using dist by blast
qed

theorem duplicate_keys_witness:
  "\<exists>d. load_csv DEFAULT_MAPPING_CSV_FILENAME MAPPING_HEADERS True duplicate_world = Inr (RowDict d)
      \<and> distinct (map fst d)
      \<and> map_of d (Some ''C1'')
          = Some \<lparr>cells = [(''Customer ID'', Some ''C1''), (''Company Name'', Some ''Acme Ltd''),
                           (''Account Number'', Some ''ACC-2'')], extra = None\<rparr>
      \<and> map_of d (Some ''C2'') = None"
proof -
  let ?recs = "[[''C1'', ''Acme'', ''ACC-1''], [''C1'', ''Acme Ltd'', ''ACC-2'']]"
  let ?txt = "concat (map writerow (example_mh # ?recs))"
  have f: "files duplicate_world DEFAULT_MAPPING_CSV_FILENAME = Some ?txt"
    by (simp add: duplicate_world_def)
  have rb: "csv_reader (split_lines (universal_newlines (decode_utf8_sig ?txt)))
              = (example_mh # ?recs, None)"
    by (rule read_back) (simp add: example_mh_def CR_def FIELD_LIMIT_def)
  have k: "ACCOUNT_KEY \<in> set example_mh" by (simp add: example_mh_def ACCOUNT_KEY_def)
  have l1: "last_with_key (Some ''C1'') (dict_reader (example_mh # ?recs))
      = Some \<lparr>cells = [(''Customer ID'', Some ''C1''), (''Company Name'', Some ''Acme Ltd''),
                       (''Account Number'', Some ''ACC-2'')], extra = None\<rparr>"
    by (simp add: last_with_key_def account_key_of_def dict_reader_def dict_row_def py_dict_def
        example_mh_def ACCOUNT_KEY_def Let_def)
  have l2: "last_with_key (Some ''C2'') (dict_reader (example_mh # ?recs)) = None"
    by (simp add: last_with_key_def account_key_of_def dict_reader_def dict_row_def py_dict_def
        example_mh_def ACCOUNT_KEY_def Let_def)
  from duplicate_keys_last_row_wins[OF f rb k, of MAPPING_HEADERS] l1 l2
  show ?thesis by auto
qed

text \<open>
  C3, as amended. For every mapping table whose entries hold exactly the three mapping
  fields, each a string without a carriage return and within the reader's field size
  limit, filed under their own Customer ID: writing its rows, in any order, with the
  mapping header set and reloading the file in keyed mode succeeds and yields a table
  with the same keys, one entry per key, and for each key the same value of every
  field.
\<close>

theorem mapping_round_trip:
  assumes ok: "mapping_table_ok m"
    and mh: "iteration_of MAPPING_HEADERS mh"
    and perm: "mset rows = mset (map snd m)"
  shows "\<exists>m'. fst (write_csv f mh rows w) = Inr True
      \<and> load_csv f MAPPING_HEADERS True (snd (write_csv f mh rows w)) = Inr (RowDict m')
      \<and> distinct (map fst m') \<and> set (map fst m') = set (map fst m)
      \<and> (\<forall>k e. map_of m k = Some e \<longrightarrow>
            (\<exists>e'. map_of m' k = Some e' \<and> extra e' = None
                  \<and> (\<forall>h. map_of (cells e') h = map_of (cells e) h)))"
proof -
  let ?c = "\<lambda>r. dict_row mh (row_values mh r)"
  let ?recs = "mh # map (row_values mh) rows"
  have s: "set mh = MAPPING_HEADERS" and d: "distinct mh"
    using mh by (simp_all add: iteration_of_def)
  have dm: "distinct (map fst m)" and em: "\<And>k e. (k, e) \<in> set m \<Longrightarrow> entry_ok k e"
    using ok by (auto simp: mapping_table_ok_def list_all_iff)
  have set_rows: "set rows = snd ` set m"
    using mset_eq_setD[OF perm] by simp
  have rows_ok: "\<exists>k. (k, r) \<in> set m \<and> entry_ok k r" if "r \<in> set rows" for r
    using that set_rows em by force
  have writable: "extra r = None \<and> set (map fst (cells r)) \<subseteq> set mh" if "r \<in> set rows" for r
    using rows_ok[OF that] s by (auto simp: entry_ok_def)
  have wr: "write_csv f mh rows w = (Inr True, w\<lparr>files := (files w)(f \<mapsto> csv_text mh rows)\<rparr>)"
    using writable by (rule write_csv_ok)
  have written: "csv_text mh rows = concat (map writerow ?recs)"
    by (simp add: csv_text_def comp_def)
  have fine: "\<forall>vs \<in> set ?recs. vs \<noteq> [] \<and> (\<forall>x \<in> set vs. CR \<notin> set x \<and> length x \<le> FIELD_LIMIT)"
  proof
    fix vs assume "vs \<in> set ?recs"
    then consider "vs = mh" | r where "r \<in> set rows" "vs = row_values mh r" by auto
    then show "vs \<noteq> [] \<and> (\<forall>x \<in> set vs. CR \<notin> set x \<and> length x \<le> FIELD_LIMIT)"
    proof cases
      case 1
      with header_storable[OF mh] show ?thesis by (simp add: storable_def)
    next
      case 2
      from rows_ok[OF 2(1)] obtain k where "entry_ok k r" by blast
      from row_values_storable[OF this s] have "\<forall>x \<in> set vs. storable x" by (simp add: 2(2))
      moreover have "vs \<noteq> []" using header_storable[OF mh] by (simp add: 2(2) row_values_def)
      ultimately show ?thesis by (simp add: storable_def)
    qed
  qed
  have rb: "csv_reader (split_lines (universal_newlines (decode_utf8_sig (csv_text mh rows))))
          = (?recs, None)"
    unfolding written using fine by (rule read_back)
  have key_in: "ACCOUNT_KEY \<in> set mh" by (simp add: s MAPPING_HEADERS_def ACCOUNT_KEY_def)
  have fl: "files (snd (write_csv f mh rows w)) f = Some (csv_text mh rows)"
    by (simp add: wr)
  from load_csv_dict[OF fl rb key_in, of MAPPING_HEADERS] obtain m' where
    ld: "load_csv f MAPPING_HEADERS True (snd (write_csv f mh rows w)) = Inr (RowDict m')"
    and dist: "distinct (map fst m')"
    and look: "\<And>k. map_of m' k = last_with_key k (dict_reader ?recs)"
    by blast
  have nonempty: "filter (\<lambda>r. r \<noteq> []) (map (row_values mh) rows) = map (row_values mh) rows"
    using fine by (intro filter_True) auto
  have dr: "dict_reader ?recs = map ?c rows"
    by (simp add: dict_reader_def nonempty)
  have same: "account_key_of (?c r) = account_key_of r" if "r \<in> set rows" for r
  proof -
    from rows_ok[OF that] obtain k where "entry_ok k r" by blast
    from reloaded_row(2)[OF this mh] show ?thesis by (simp add: account_key_of_def)
  qed
  have keys_m: "map account_key_of (map snd m) = map (\<lambda>p. Some (fst p)) m"
    using em by (auto simp: entry_ok_def account_key_of_def)
  have "distinct (map account_key_of (map snd m))"
    unfolding keys_m using dm by (simp add: distinct_map inj_on_def)
  moreover have "mset (map account_key_of rows) = mset (map account_key_of (map snd m))"
    using perm by (metis mset_map)
  ultimately have drows: "distinct (map account_key_of rows)"
    by (metis mset_eq_imp_distinct_iff)
  have entries: "\<exists>e'. map_of m' k = Some e' \<and> extra e' = None
                  \<and> (\<forall>h. map_of (cells e') h = map_of (cells e) h)"
    if "map_of m k = Some e" for k e
  proof -
    from that have in_m: "(k, e) \<in> set m" by (rule map_of_SomeD)
    then have e_rows: "e \<in> set rows" using set_rows by force
    have eo: "entry_ok k e" using em[OF in_m] .
    then have ke: "account_key_of e = Some k" by (simp add: entry_ok_def account_key_of_def)
    have "map_of m' k = Some (?c e)"
      unfolding look dr using drows e_rows ke same by (rule last_with_key_unique)
    with reloaded_row[OF eo mh] show ?thesis by simp
  qed
  have keyset: "set (map fst m') = set (map fst m)"
  proof -
    have "k \<in> fst ` set m' \<longleftrightarrow> k \<in> fst ` set m" for k
    proof -
      have "k \<in> fst ` set m' \<longleftrightarrow> map_of m' k \<noteq> None"
        by (simp add: map_of_eq_None_iff)
      also have "\<dots> \<longleftrightarrow> (\<exists>r \<in> set rows. account_key_of (?c r) = Some k)"
        unfolding look dr by (auto simp: last_with_key_None)
      also have "\<dots> \<longleftrightarrow> (\<exists>r \<in> set rows. account_key_of r = Some k)"
        using same by auto
      also have "\<dots> \<longleftrightarrow> k \<in> fst ` set m"
      proof
        assume "\<exists>r \<in> set rows. account_key_of r = Some k"
        then obtain r where r: "r \<in> set rows" "account_key_of r = Some k" by blast
        from rows_ok[OF r(1)] obtain k' where "(k', r) \<in> set m" "entry_ok k' r" by blast
        with r(2) have "k' = k" by (simp add: entry_ok_def account_key_of_def)
        with \<open>(k', r) \<in> set m\<close> show "k \<in> fst ` set m" by force
      next
        assume "k \<in> fst ` set m"
        then obtain e where e: "(k, e) \<in> set m" by auto
        then have "e \<in> set rows" using set_rows by force
        moreover have "account_key_of e = Some k"
          using em[OF e] by (simp add: entry_ok_def account_key_of_def)
        ultimately show "\<exists>r \<in> set rows. account_key_of r = Some k" by blast
      qed
      finally show ?thesis .
    qed
    then show ?thesis by auto
  qed
  from wr ld dist keyset entries show ?thesis by auto
qed

theorem mapping_round_trip_witness:
  "\<exists>m'. fst (write_csv DEFAULT_MAPPING_CSV_FILENAME example_mh (rev (map snd two_accounts))
              example_world) = Inr True
      \<and> load_csv DEFAULT_MAPPING_CSV_FILENAME MAPPING_HEADERS True
           (snd (write_csv DEFAULT_MAPPING_CSV_FILENAME example_mh (rev (map snd two_accounts))
                   example_world)) = Inr (RowDict m')
      \<and> set (map fst m') = {Some ''C1'', Some ''C0''}
      \<and> (\<exists>e'. map_of m' (Some ''C1'') = Some e'
             \<and> map_of (cells e') ''Account Number'' = Some (Some ''ACC-1'')
             \<and> map_of (cells e') ''Company Name'' = Some (Some ''Acme''))"
proof -
  have ok: "mapping_table_ok two_accounts"
    by (auto simp: mapping_table_ok_def entry_ok_def two_accounts_def mapping_entry_def
        MAPPING_HEADERS_def ACCOUNT_KEY_def storable_def CR_def FIELD_LIMIT_def)
  have p: "mset (rev (map snd two_accounts)) = mset (map snd two_accounts)" by simp
  have e: "map_of two_accounts (Some ''C1'') = Some (mapping_entry (Some ''C1'') (Some ''Acme'') ''ACC-1'')"
    by (simp add: two_accounts_def)
  have k: "set (map fst two_accounts) = {Some ''C1'', Some ''C0''}"
    by (simp add: two_accounts_def)
  from mapping_round_trip[OF ok example_mh_iteration p,
      of DEFAULT_MAPPING_CSV_FILENAME example_world]
  obtain m' where
    1: "fst (write_csv DEFAULT_MAPPING_CSV_FILENAME example_mh (rev (map snd two_accounts))
              example_world) = Inr True"
    and 2: "load_csv DEFAULT_MAPPING_CSV_FILENAME MAPPING_HEADERS True
           (snd (write_csv DEFAULT_MAPPING_CSV_FILENAME example_mh (rev (map snd two_accounts))
                   example_world)) = Inr (RowDict m')"
    and 3: "set (map fst m') = set (map fst two_accounts)"
    and 4: "\<And>k e. map_of two_accounts k = Some e \<Longrightarrow>
            (\<exists>e'. map_of m' k = Some e' \<and> extra e' = None
                  \<and> (\<forall>h. map_of (cells e') h = map_of (cells e) h))"
    by blast
  from 4[OF e] obtain e' where
    5: "map_of m' (Some ''C1'') = Some e'"
    and 6: "\<And>h. map_of (cells e') h
               = map_of (cells (mapping_entry (Some ''C1'') (Some ''Acme'') ''ACC-1'')) h"
    by blast
  have "map_of (cells e') ''Account Number'' = Some (Some ''ACC-1'')"
    and "map_of (cells e') ''Company Name'' = Some (Some ''Acme'')"
    by (simp_all add: 6 mapping_entry_def)
  with 1 2 3 5 k show ?thesis by auto
qed

text \<open>
  C3 as stated fails. A company name with a carriage return in it is written as it
  is, between quotes; the file is read in universal-newlines mode, so the name comes
  back with a line feed in its place.
\<close>

theorem carriage_return_not_preserved:
  "load_csv DEFAULT_MAPPING_CSV_FILENAME MAPPING_HEADERS True
     (snd (write_csv DEFAULT_MAPPING_CSV_FILENAME example_mh
             [mapping_entry (Some ''C1'') (Some [CHR ''A'', CR, CHR ''B'']) ''1''] example_world))
   = Inr (RowDict [(Some ''C1'',
        \<lparr>cells = [(''Customer ID'', Some ''C1''), (''Company Name'', Some [CHR ''A'', LF, CHR ''B'']),
                  (''Account Number'', Some ''1'')], extra = None\<rparr>)])
   \<and> map_of (cells (mapping_entry (Some ''C1'') (Some [CHR ''A'', CR, CHR ''B'']) ''1''))
        ''Company Name'' = Some (Some [CHR ''A'', CR, CHR ''B''])
   \<and> [CHR ''A'', CR, CHR ''B''] \<noteq> [CHR ''A'', LF, CHR ''B'']"
  by (simp add: load_csv_def write_csv_def dict_to_list_def row_values_def mapping_entry_def
      example_mh_def example_world_def writerow_def quote_cell_def
      decode_utf8_sig_def BOM_def csv_reader_def parse_reset_def parse_process_char_def
      start_field_def parse_add_char_def parse_save_field_def end_of_line_def after_line_end_def
      FIELD_LIMIT_def dict_reader_def dict_row_def py_dict_def getitem_def ACCOUNT_KEY_def
      DEFAULT_MAPPING_CSV_FILENAME_def DQUOTE_def COMMA_def CR_def LF_def Let_def)

section \<open>Claims about whole runs\<close>

subsection \<open>Two runs that iterate the billing headers in the same order\<close>

text \<open>
  Take a run on a source file whose every row has an account key that the mapping
  table, as loaded, contains, and suppose it succeeds. It issues no prompt, consumes no
  operator input and changes no file but its destination file. A second run that finds
  the source file and the mapping file as the first run found them (whatever its clock,
  its operator input, its destination argument and the order in which it iterates the
  mapping headers) and iterates \<open>BILLING_HEADERS\<close> in the same order as the first,
  succeeds as well, issues no prompt, and the destination file it writes has the same
  content as the one the first run wrote.
\<close>

lemma same_order_second_run:
  assumes src: "load_csv src SOURCE_HEADERS False w = Inr (RowList rows)"
    and mp: "load_csv DEFAULT_MAPPING_CSV_FILENAME MAPPING_HEADERS True
               (create_mapping_if_missing w) = Inr (RowDict m)"
    and known: "all_known m rows"
    and run1: "main mh1 bh src dest1 w = (Inr (), w1)"
    and f_src: "files w2 src = files w src"
    and f_map: "files w2 DEFAULT_MAPPING_CSV_FILENAME
                  = files (create_mapping_if_missing w) DEFAULT_MAPPING_CSV_FILENAME"
  shows "prompts w1 = prompts w \<and> answers w1 = answers w
       \<and> (\<forall>f. f \<noteq> billing_filename dest1 w \<longrightarrow>
              files w1 f = files (create_mapping_if_missing w) f)
       \<and> (\<exists>w3. main mh2 bh src dest2 w2 = (Inr (), w3)
              \<and> prompts w3 = prompts w2 \<and> answers w3 = answers w2
              \<and> files w3 (billing_filename dest2 w2) = files w1 (billing_filename dest1 w)
              \<and> files w3 (billing_filename dest2 w2) \<noteq> None)"
proof -
  let ?w = "create_mapping_if_missing w"
  from convert_formats_known[OF known] obtain res where
    conv: "\<And>mh w'. convert_formats mh rows m w' = (res, w')" by blast
  have m1: "main mh1 bh src dest1 w =
     (case res of Inl e \<Rightarrow> (Inl e, ?w) | Inr p \<Rightarrow> write_billing_csv bh (fst p) dest1 ?w)"
    by (rule main_known[OF src mp conv])
  with run1 obtain p where p: "res = Inr p" by (cases res) auto
  let ?out = "fst p"
  let ?content = "writerow bh @ snd (writerows bh ?out)"
  have n1: "billing_filename dest1 ?w = billing_filename dest1 w"
    by (rule billing_filename_now) simp
  from m1 run1 p have wr1: "write_billing_csv bh ?out dest1 ?w = (Inr (), w1)" by simp
  then have ok: "fst (writerows bh ?out) = None"
    and w1: "w1 = ?w\<lparr>files := (files ?w)(billing_filename dest1 w \<mapsto> ?content)\<rparr>"
    by (auto simp: write_billing_result n1 split: option.splits)
  have quiet1: "prompts w1 = prompts w \<and> answers w1 = answers w" by (simp add: w1)
  have frame: "\<forall>f. f \<noteq> billing_filename dest1 w \<longrightarrow> files w1 f = files ?w f"
    by (simp add: w1)
  have ex_map: "files ?w DEFAULT_MAPPING_CSV_FILENAME \<noteq> None" using mp by (rule load_csv_exists)
  have c2: "create_mapping_if_missing w2 = w2"
    using ex_map f_map by (intro create_mapping_idem) simp
  have src2: "load_csv src SOURCE_HEADERS False w2 = Inr (RowList rows)"
    using load_csv_files[OF f_src] src by simp
  have mp2: "load_csv DEFAULT_MAPPING_CSV_FILENAME MAPPING_HEADERS True
               (create_mapping_if_missing w2) = Inr (RowDict m)"
    unfolding c2 using load_csv_files[OF f_map] mp by simp
  have m2: "main mh2 bh src dest2 w2 = write_billing_csv bh ?out dest2 w2"
    using main_known[OF src2 mp2 conv, of mh2 bh dest2] by (simp add: p c2)
  let ?w3 = "w2\<lparr>files := (files w2)(billing_filename dest2 w2 \<mapsto> ?content)\<rparr>"
  have r2: "main mh2 bh src dest2 w2 = (Inr (), ?w3)"
    by (simp add: m2 write_billing_result ok)
  have same: "files ?w3 (billing_filename dest2 w2) = files w1 (billing_filename dest1 w)"
    by (simp add: w1)
  have there: "files ?w3 (billing_filename dest2 w2) \<noteq> None" by simp
  have quiet2: "prompts ?w3 = prompts w2 \<and> answers ?w3 = answers w2" by simp
  from quiet1 frame r2 quiet2 same there show ?thesis by blast
qed

lemma same_order_example:
  "prompts (snd first_run) = [] \<and> answers (snd first_run) = []
   \<and> files (snd first_run) DEFAULT_SOURCE_CSV_FILENAME = Some source_text
   \<and> files (snd first_run) DEFAULT_MAPPING_CSV_FILENAME = Some mapping_text
   \<and> (\<exists>w3. main (rev example_mh) example_bh DEFAULT_SOURCE_CSV_FILENAME DEFAULT_DEST_CSV_FILENAME
               ((snd first_run)\<lparr>now := next_day, answers := [''ACC-9'']\<rparr>) = (Inr (), w3)
          \<and> prompts w3 = [] \<and> answers w3 = [''ACC-9'']
          \<and> files w3 ''billing_20240306_0900.csv''
               = files (snd first_run) ''billing_20240305_1407.csv''
          \<and> files w3 ''billing_20240306_0900.csv'' \<noteq> None)"
proof -
  let ?w2 = "(snd first_run)\<lparr>now := next_day, answers := [''ACC-9'']\<rparr>"
  have c: "create_mapping_if_missing populated_world = populated_world"
    by (intro create_mapping_idem) (simp add: populated_files)
  have s: "load_csv DEFAULT_SOURCE_CSV_FILENAME SOURCE_HEADERS False populated_world
             = Inr (RowList [example_row])"
    by (rule populated_source) (rule populated_files)
  have m: "load_csv DEFAULT_MAPPING_CSV_FILENAME MAPPING_HEADERS True
             (create_mapping_if_missing populated_world) = Inr (RowDict known_mapping)"
    unfolding c by (rule populated_mapping) (rule populated_files)
  have r: "main example_mh example_bh DEFAULT_SOURCE_CSV_FILENAME DEFAULT_DEST_CSV_FILENAME
             populated_world = (Inr (), snd first_run)"
    unfolding first_run_def[symmetric] by (simp add: first_run_eq)
  have n1: "billing_filename DEFAULT_DEST_CSV_FILENAME populated_world = ''billing_20240305_1407.csv''"
    by (simp add: billing_filename_def populated_world_def strftime_def zero_pad_def digit_def decimal.simps
        DEFAULT_DEST_CSV_FILENAME_PREFIX_def)
  have n2: "billing_filename DEFAULT_DEST_CSV_FILENAME ?w2 = ''billing_20240306_0900.csv''"
    by (simp add: billing_filename_def next_day_def strftime_def zero_pad_def digit_def decimal.simps
        DEFAULT_DEST_CSV_FILENAME_PREFIX_def)
  have kept: "files (snd first_run) DEFAULT_SOURCE_CSV_FILENAME = Some source_text"
    "files (snd first_run) DEFAULT_MAPPING_CSV_FILENAME = Some mapping_text"
    by (simp_all add: first_run_eq populated_world_def DEFAULT_SOURCE_CSV_FILENAME_def
        DEFAULT_MAPPING_CSV_FILENAME_def)
  have f1: "files ?w2 DEFAULT_SOURCE_CSV_FILENAME = files populated_world DEFAULT_SOURCE_CSV_FILENAME"
    by (simp add: kept populated_files)
  have f2: "files ?w2 DEFAULT_MAPPING_CSV_FILENAME
              = files (create_mapping_if_missing populated_world) DEFAULT_MAPPING_CSV_FILENAME"
    by (simp add: kept populated_files c)
  have p: "prompts populated_world = []" "answers populated_world = []"
    "prompts ?w2 = []" "answers ?w2 = [''ACC-9'']"
    by (simp_all add: first_run_eq populated_world_def)
  from same_order_second_run[OF s m example_known r f1 f2, of "rev example_mh"
      DEFAULT_DEST_CSV_FILENAME]
  show ?thesis unfolding n1 n2 p using kept by simp
qed

subsection \<open>Two runs that iterate the billing headers in different orders\<close>

text \<open>
  C4: two runs on the same unchanged source file, with a mapping table that has every
  account of the source, write byte-identical destination files and issue no prompt.
  The program does not do this. \<open>BILLING_HEADERS\<close> lists the columns in the order of
  the destination format, but it is a set, and the columns of the destination file are
  laid out in the order in which the run iterates that set; two runs are two processes,
  which need not iterate it in the same order. Here the second run finds the source
  file and the mapping file as the first run found them, the mapping table has the one
  account of the source, both runs succeed without a prompt, and the two destination
  files differ: the first begins with the column \<open>No\<close>, the second with the column
  \<open>YTD Amount\<close>.
\<close>

theorem header_order_changes_content:
  \<open>iteration_of BILLING_HEADERS example_bh \<and> iteration_of BILLING_HEADERS (rev example_bh)
   \<and> fst first_run = Inr () \<and> fst second_run_reordered = Inr ()
   \<and> prompts (snd first_run) = [] \<and> prompts (snd second_run_reordered) = []
   \<and> files (snd first_run) DEFAULT_SOURCE_CSV_FILENAME
        = files populated_world DEFAULT_SOURCE_CSV_FILENAME
   \<and> files (snd first_run) DEFAULT_MAPPING_CSV_FILENAME
        = files populated_world DEFAULT_MAPPING_CSV_FILENAME
   \<and> files (snd first_run) ''billing_20240305_1407.csv''
        = Some (''"No","Customer ID","Company Name","Account Number","Flat Charge","Current Volume","Current Amount","YTD Volume","YTD Amount"''
                  @ [CHR 0x0D, CHR 0x0A]
                @ ''"1","C1","Acme","ACC-1","10","5","50","20","200"'' @ [CHR 0x0D, CHR 0x0A])
   \<and> files (snd second_run_reordered) ''billing_20240306_0900.csv''
        = Some (''"YTD Amount","YTD Volume","Current Amount","Current Volume","Flat Charge","Account Number","Company Name","Customer ID","No"''
                  @ [CHR 0x0D, CHR 0x0A]
                @ ''"200","20","50","5","10","ACC-1","Acme","C1","1"'' @ [CHR 0x0D, CHR 0x0A])
   \<and> files (snd first_run) ''billing_20240305_1407.csv''
        \<noteq> files (snd second_run_reordered) ''billing_20240306_0900.csv''\<close>
proof -
  have i: "iteration_of BILLING_HEADERS (rev example_bh)"
    using example_bh_iteration by (simp add: iteration_of_def)
  have 1: "files (snd first_run) DEFAULT_SOURCE_CSV_FILENAME
             = files populated_world DEFAULT_SOURCE_CSV_FILENAME"
    "files (snd first_run) DEFAULT_MAPPING_CSV_FILENAME
             = files populated_world DEFAULT_MAPPING_CSV_FILENAME"
    by (simp_all add: first_run_eq DEFAULT_SOURCE_CSV_FILENAME_def
        DEFAULT_MAPPING_CSV_FILENAME_def)
  have 2: "prompts (snd first_run) = []" "prompts (snd second_run_reordered) = []"
    by (simp_all add: second_run_reordered_eq) (simp_all add: first_run_eq populated_world_def)
  have 3: "fst first_run = Inr ()" "fst second_run_reordered = Inr ()"
    by (simp_all add: first_run_eq second_run_reordered_eq)
  have t1: \<open>csv_text example_bh [setitem example_row ''Account Number'' (Some ''ACC-1'')]
       = ''"No","Customer ID","Company Name","Account Number","Flat Charge","Current Volume","Current Amount","YTD Volume","YTD Amount"''
                  @ [CHR 0x0D, CHR 0x0A]
                @ ''"1","C1","Acme","ACC-1","10","5","50","20","200"'' @ [CHR 0x0D, CHR 0x0A]\<close>
    by (simp add: csv_text_def writerow_def quote_cell_def row_values_def example_bh_def
        example_row_def setitem_def DQUOTE_def COMMA_def CR_def LF_def)
  have t2: \<open>csv_text (rev example_bh) [setitem example_row ''Account Number'' (Some ''ACC-1'')]
       = ''"YTD Amount","YTD Volume","Current Amount","Current Volume","Flat Charge","Account Number","Company Name","Customer ID","No"''
                  @ [CHR 0x0D, CHR 0x0A]
                @ ''"200","20","50","5","10","ACC-1","Acme","C1","1"'' @ [CHR 0x0D, CHR 0x0A]\<close>
    by (simp add: csv_text_def writerow_def quote_cell_def row_values_def example_bh_def
        example_row_def setitem_def DQUOTE_def COMMA_def CR_def LF_def)
  have 4: \<open>files (snd first_run) ''billing_20240305_1407.csv''
        = Some (''"No","Customer ID","Company Name","Account Number","Flat Charge","Current Volume","Current Amount","YTD Volume","YTD Amount"''
                  @ [CHR 0x0D, CHR 0x0A]
                @ ''"1","C1","Acme","ACC-1","10","5","50","20","200"'' @ [CHR 0x0D, CHR 0x0A])\<close>
    unfolding t1[symmetric] by (simp add: first_run_eq)
  have 5: \<open>files (snd second_run_reordered) ''billing_20240306_0900.csv''
        = Some (''"YTD Amount","YTD Volume","Current Amount","Current Volume","Flat Charge","Account Number","Company Name","Customer ID","No"''
                  @ [CHR 0x0D, CHR 0x0A]
                @ ''"200","20","50","5","10","ACC-1","Acme","C1","1"'' @ [CHR 0x0D, CHR 0x0A])\<close>
    unfolding t2[symmetric] by (simp add: second_run_reordered_eq)
  have d: "files (snd first_run) ''billing_20240305_1407.csv''
        \<noteq> files (snd second_run_reordered) ''billing_20240306_0900.csv''"
    unfolding 4 5 by simp
  show ?thesis
    by (intro conjI example_bh_iteration i d 1 2 3 4 5)
qed

end
